theory Spec2Isabelle
  imports Main "HOL-Library.Sublist" "HOL-Library.List_Lexorder" "HOL-Library.Char_ord"
    "HOL-Library.Multiset"
begin

section \<open>DNS zone synthesis and publication (management/dns\_update.py)\<close>

text \<open>
  A shallow embedding of \<^verbatim>\<open>management/dns_update.py\<close>. Python strings are
  \<^typ>\<open>string\<close> (code points below 256), Python sets and dicts are lists in
  their iteration order, exceptions are values of \<open>error\<close>, and every file the
  code reads or writes is part of an explicit state.
\<close>

subsection \<open>Strings\<close>

definition endswith :: "string \<Rightarrow> string \<Rightarrow> bool" where
  "endswith s suf = suffix suf s"

definition startswith :: "string \<Rightarrow> string \<Rightarrow> bool" where
  "startswith s pre = prefix pre s"

text \<open>\<^verbatim>\<open>str.isspace\<close> on one character, which is also the class \<^verbatim>\<open>\s\<close> of
  \<^verbatim>\<open>re\<close> on a \<^verbatim>\<open>str\<close> pattern.\<close>

definition isspace :: "char \<Rightarrow> bool" where
  "isspace c = (c \<in> set [CHR 0x09, CHR 0x0A, CHR 0x0B, CHR 0x0C, CHR 0x0D, CHR 0x1C,
     CHR 0x1D, CHR 0x1E, CHR 0x1F, CHR '' '', CHR 0x85, CHR 0xA0])"

definition isdigit :: "char \<Rightarrow> bool" where
  "isdigit c = (c \<in> set ''0123456789'')"

definition strip :: "string \<Rightarrow> string" where
  "strip s = rev (dropWhile isspace (rev (dropWhile isspace s)))"

text \<open>\<^verbatim>\<open>s.split(sep)\<close> for a separator of one character.\<close>

fun split :: "char \<Rightarrow> string \<Rightarrow> string list" where
  "split sep [] = [[]]"
| "split sep (c # cs) =
     (if c = sep then [] # split sep cs
      else (case split sep cs of [] \<Rightarrow> [[c]] | w # ws \<Rightarrow> (c # w) # ws))"

subsection \<open>Exceptions, the environment and the collaborators\<close>

datatype error =
    ValueError string
  | OSError
  | AttributeError
  | TypeError
  | CalledProcessError

text \<open>The keys of the \<^verbatim>\<open>env\<close> dict that this module reads. \<^verbatim>\<open>PUBLIC_IPV6\<close> may
  be missing (\<open>None\<close>) or present and empty.\<close>

record environ =
  PRIMARY_HOSTNAME :: string
  PUBLIC_IP :: string
  PUBLIC_IPV6 :: "string option"

text \<open>What the module imports from \<^verbatim>\<open>mailconfig\<close> and \<^verbatim>\<open>utils\<close>, neither of
  which is part of the source under study, taken as parameters:
  the set \<^verbatim>\<open>get_mail_domains(env)\<close> in its iteration order, \<^verbatim>\<open>safe_domain_name\<close>
  and \<^verbatim>\<open>sort_domains(names, env)\<close>. The standard library's
  \<^verbatim>\<open>ipaddress.ip_address\<close> is a parameter too: it gives the class of the address
  it parsed, and \<open>None\<close> stands for its \<^verbatim>\<open>ValueError\<close>. So is \<^verbatim>\<open>str.upper\<close>, whose
  Unicode case mapping (it sends some letters to code points above 255 or to two
  letters) is left to the library: every statement about \<^verbatim>\<open>rtype.upper()\<close> holds for
  whatever that function returns.\<close>

datatype ip_class = IPv4Address | IPv6Address

text \<open>
  What \<^verbatim>\<open>build_zone\<close> obtains from outside the process, as parameters too:
  the hex SHA-256 of the DER certificate that \<^verbatim>\<open>openssl\<close> prints and the output of
  \<^verbatim>\<open>ssh-keyscan localhost\<close> (\<open>None\<close> when the command fails), the upper-case hex
  SHA-256 of a base64 text (\<open>None\<close> when it does not decode), and the outcome of
  reading \<^verbatim>\<open>mail/dkim/mail.txt\<close> and matching it against the pattern of
  \<^verbatim>\<open>build_zone\<close>: no file, no match, or the three groups.
\<close>

datatype dkim_read = NoFile | NoMatch | Match string string string

record collaborators =
  get_mail_domains :: "string list"
  safe_domain_name :: "string \<Rightarrow> string"
  sort_domains :: "string list \<Rightarrow> string list"
  ip_address :: "string \<Rightarrow> ip_class option"
  upper :: "string \<Rightarrow> string"
  certificate_sha256 :: "string option"
  ssh_keyscan :: "string option"
  sha256_of_base64 :: "string \<Rightarrow> string option"
  opendkim_record :: dkim_read

subsection \<open>Python sets as duplicate-free lists\<close>

definition set_add :: "'a list \<Rightarrow> 'a \<Rightarrow> 'a list" where
  "set_add xs x = (if x \<in> set xs then xs else xs @ [x])"

definition set_union :: "'a list \<Rightarrow> 'a list \<Rightarrow> 'a list" where
  "set_union xs ys = foldl set_add xs ys"

subsection \<open>\<^verbatim>\<open>get_dns_domains\<close> and \<^verbatim>\<open>get_dns_zones\<close>\<close>

definition get_dns_domains :: "collaborators \<Rightarrow> environ \<Rightarrow> string list" where
  "get_dns_domains ext env =
     set_add (set_union [] (get_mail_domains ext)) (PRIMARY_HOSTNAME env)"

text \<open>The loop over the domains sorted by length: \<open>zone_domains\<close> is the set built so
  far; the inner \<^verbatim>\<open>for ... break ... else\<close> admits a domain when no admitted domain is
  a parent of it.\<close>

fun zone_scan :: "string list \<Rightarrow> string list \<Rightarrow> string list" where
  "zone_scan zone_domains [] = zone_domains"
| "zone_scan zone_domains (domain # rest) =
     zone_scan
       (if list_ex (\<lambda>d. endswith domain (''.'' @ d)) zone_domains then zone_domains
        else set_add zone_domains domain)
       rest"

text \<open>\<^verbatim>\<open>xs.index(x)\<close>, which raises \<^verbatim>\<open>ValueError\<close> when \<open>x\<close> is not in the list.\<close>

fun index :: "'a list \<Rightarrow> 'a \<Rightarrow> nat option" where
  "index [] x = None"
| "index (y # ys) x = (if y = x then Some 0 else map_option Suc (index ys x))"

definition get_dns_zones :: "collaborators \<Rightarrow> environ \<Rightarrow> error + (string \<times> string) list" where
  "get_dns_zones ext env =
     (let domains = get_dns_domains ext env;
          zone_domains = zone_scan [] (sort_key length domains);
          zonefiles = map (\<lambda>domain. (domain, safe_domain_name ext domain @ ''.txt'')) zone_domains;
          zone_order = sort_domains ext (map fst zonefiles)
      in if list_ex (\<lambda>zone. index zone_order (fst zone) = None) zonefiles
         then Inl (ValueError ''is not in list'')
         else Inr (sort_key (\<lambda>zone. the (index zone_order (fst zone))) zonefiles))"

text \<open>A set of names no member of which is a subdomain of another.\<close>

definition antichain :: "string list \<Rightarrow> bool" where
  "antichain zs = (\<forall>a\<in>set zs. \<forall>b\<in>set zs. \<not> endswith a (''.'' @ b))"

subsection \<open>The custom records store and \<^verbatim>\<open>set_custom_dns_record\<close>\<close>

text \<open>
  \<^verbatim>\<open>dns/custom.yaml\<close> maps a qualified name to a string (short for an A record) or
  to a mapping from record types to values. \<open>Other\<close> is a value that is neither (a
  number, a boolean, null). Dicts are association lists in insertion order with the
  first binding of a key in force.
\<close>

datatype custom_value = Short string | Mapping "(string \<times> string) list" | Other

type_synonym custom_config = "(string \<times> custom_value) list"

text \<open>\<^verbatim>\<open>d[k] = v\<close>: an existing key keeps its place, a new key goes last.\<close>

fun dict_set :: "('k \<times> 'v) list \<Rightarrow> 'k \<Rightarrow> 'v \<Rightarrow> ('k \<times> 'v) list" where
  "dict_set [] k v = [(k, v)]"
| "dict_set (kv # d) k v = (if fst kv = k then (k, v) # d else kv # dict_set d k v)"

text \<open>\<^verbatim>\<open>del d[k]\<close> for a key that is present.\<close>

definition dict_del :: "('k \<times> 'v) list \<Rightarrow> 'k \<Rightarrow> ('k \<times> 'v) list" where
  "dict_del d k = filter (\<lambda>kv. fst kv \<noteq> k) d"

definition is_managed :: "(string \<times> string) list \<Rightarrow> string \<Rightarrow> bool" where
  "is_managed zones qname =
     list_ex (\<lambda>zone. qname = fst zone \<or> endswith qname (''.'' @ fst zone)) zones"

text \<open>The check of the record type and value; \<open>None\<close> when nothing is raised.\<close>

definition validate_rtype :: "collaborators \<Rightarrow> string \<Rightarrow> string option \<Rightarrow> error option" where
  "validate_rtype ext rtype val =
     (case val of
        None \<Rightarrow> None
      | Some v \<Rightarrow>
          if rtype = ''A'' \<or> rtype = ''AAAA'' then
            (case ip_address ext v of
               None \<Rightarrow> Some (ValueError ([CHR 0x27] @ v @ [CHR 0x27] @
                 '' does not appear to be an IPv4 or IPv6 address''))
             | Some cls \<Rightarrow>
                 if rtype = ''A'' \<and> cls \<noteq> IPv4Address
                   then Some (ValueError ''That's an IPv6 address.'')
                 else if rtype = ''AAAA'' \<and> cls \<noteq> IPv6Address
                   then Some (ValueError ''That's an IPv4 address.'')
                 else None)
          else if rtype = ''CNAME'' \<or> rtype = ''TXT'' then None
          else Some (ValueError (''Unknown record type '' @ [CHR 0x27] @ rtype @ [CHR 0x27] @ ''.'')))"

text \<open>
  The update of the loaded \<open>config\<close>. The result is what the call returns or raises
  and the content of \<^verbatim>\<open>dns/custom.yaml\<close> afterwards: the file is written exactly on
  the paths that return \<^verbatim>\<open>True\<close>, with the updated \<open>config\<close>.
\<close>

definition update_config ::
  "string \<Rightarrow> string \<Rightarrow> string option \<Rightarrow> custom_config \<Rightarrow> (error + bool) \<times> custom_config" where
  "update_config qname rtype val config =
     (case map_of config qname of
        None \<Rightarrow>
          if val = None then (Inr False, config)
          else if rtype = ''A'' then (Inr True, dict_set config qname (Short (the val)))
          else (Inr True, dict_set config qname (Mapping [(rtype, the val)]))
      | Some (Short cur) \<Rightarrow>
          if val = None \<and> rtype \<noteq> ''A'' then (Inr False, config)
          else if val = None \<and> rtype = ''A'' then (Inr True, dict_del config qname)
          else if rtype = ''A'' then
            (if cur = ''value'' then (Inr False, config)
             else (Inr True, dict_set config qname (Short (the val))))
          else (Inr True, dict_set config qname (Mapping [(''A'', cur), (rtype, the val)]))
      | Some (Mapping m) \<Rightarrow>
          if val = None then
            (if map_of m rtype = None then (Inr False, config)
             else let m' = dict_del m rtype
                  in if length m' = 0 then (Inr True, dict_del config qname)
                     else (Inr True, dict_set config qname (Mapping m')))
          else
            (if map_of m rtype = Some ''value'' then (Inr False, config)
             else (Inr True, dict_set config qname (Mapping (dict_set m rtype (the val)))))
      | Some Other \<Rightarrow>
          if val = None then (Inl TypeError, config) else (Inl AttributeError, config))"

text \<open>\<open>store\<close> is what \<^verbatim>\<open>get_custom_dns_config\<close> loads (the empty dict when the file
  is missing or unreadable).\<close>

definition set_custom_dns_record ::
  "string \<Rightarrow> string \<Rightarrow> string option \<Rightarrow> collaborators \<Rightarrow> environ \<Rightarrow> custom_config
     \<Rightarrow> (error + bool) \<times> custom_config" where
  "set_custom_dns_record qname rtype val ext env store =
     (case get_dns_zones ext env of
        Inl e \<Rightarrow> (Inl e, store)
      | Inr zones \<Rightarrow>
          if \<not> is_managed zones qname then
            (Inl (ValueError (qname @
               '' is not a domain name or a subdomain of a domain name managed by this box.'')),
             store)
          else
            (case validate_rtype ext (upper ext rtype) val of
               Some e \<Rightarrow> (Inl e, store)
             | None \<Rightarrow> update_config qname (upper ext rtype) val store))"

subsection \<open>\<^verbatim>\<open>build_zone\<close>\<close>

text \<open>A record is the tuple \<^verbatim>\<open>(qname, rtype, value, explanation)\<close>; the name
  \<open>None\<close> is the zone itself and the explanation \<open>None\<close> is Python's \<^verbatim>\<open>False\<close>.\<close>

type_synonym dns_record = "string option \<times> string \<times> string \<times> string option"

definition truthy :: "string option \<Rightarrow> bool" where
  "truthy v = (case v of None \<Rightarrow> False | Some s \<Rightarrow> s \<noteq> [])"

definition build_tlsa_record :: "collaborators \<Rightarrow> error + string" where
  "build_tlsa_record ext =
     (case certificate_sha256 ext of
        None \<Rightarrow> Inl CalledProcessError
      | Some certhash \<Rightarrow> Inr (''3 0 1 '' @ certhash))"

definition algorithm_number :: "string \<Rightarrow> string option" where
  "algorithm_number keytype =
     map_of [(''ssh-rsa'', ''1''), (''ssh-dss'', ''2''), (''ecdsa-sha2-nistp256'', ''3'')] keytype"

text \<open>One line of the key scan; every exception inside the \<^verbatim>\<open>try\<close> yields nothing.\<close>

definition sshfp_of_key :: "collaborators \<Rightarrow> string \<Rightarrow> string list" where
  "sshfp_of_key ext key =
     (if strip key = [] \<or> hd key = CHR ''#'' then []
      else (case split (CHR '' '') key of
              [host, keytype, pubkey] \<Rightarrow>
                (case (algorithm_number keytype, sha256_of_base64 ext pubkey) of
                   (Some n, Some h) \<Rightarrow> [n @ '' 2 ( '' @ h @ '' )'']
                 | _ \<Rightarrow> [])
            | _ \<Rightarrow> []))"

definition build_sshfp_records :: "collaborators \<Rightarrow> error + string list" where
  "build_sshfp_records ext =
     (case ssh_keyscan ext of
        None \<Rightarrow> Inl CalledProcessError
      | Some keys \<Rightarrow> Inr (concat (map (sshfp_of_key ext) (split (CHR 0x0A) keys))))"

text \<open>The closure \<^verbatim>\<open>has_rec\<close> over the record list, which it reads as it is at
  the moment of the call.\<close>

definition has_rec :: "dns_record list \<Rightarrow> string option \<Rightarrow> string \<Rightarrow> string option \<Rightarrow> bool" where
  "has_rec records qname rtype pre =
     list_ex (\<lambda>rec. fst rec = qname \<and> fst (snd rec) = rtype \<and>
                (case pre of None \<Rightarrow> True | Some p \<Rightarrow> startswith (fst (snd (snd rec))) p))
       records"

text \<open>Lines 140 to 172: the name servers, the records of the box itself, MX and SPF.\<close>

definition zone_head :: "string \<Rightarrow> environ \<Rightarrow> collaborators \<Rightarrow> bool \<Rightarrow> error + dns_record list" where
  "zone_head domain env ext is_zone =
     (let records =
            (if is_zone
             then [(None, ''NS'', ''ns1.'' @ PRIMARY_HOSTNAME env @ ''.'', None),
                   (None, ''NS'', ''ns2.'' @ PRIMARY_HOSTNAME env @ ''.'', None)]
             else []);
          mail =
            [(None, ''MX'', ''10 '' @ PRIMARY_HOSTNAME env @ ''.'',
                Some (''Required. Specifies the hostname (and priority) of the machine that handles @'' @ domain @ '' mail.'')),
             (None, ''TXT'', ''v=spf1 mx -all'',
                Some (''Recommended. Specifies that only the box is permitted to send @'' @ domain @ '' mail.''))]
      in if domain = PRIMARY_HOSTNAME env then
           (case build_tlsa_record ext of
              Inl e \<Rightarrow> Inl e
            | Inr tlsa \<Rightarrow>
                (case build_sshfp_records ext of
                   Inl e \<Rightarrow> Inl e
                 | Inr sshfp \<Rightarrow>
                     Inr (records @
                       [(Some ''ns1'', ''A'', PUBLIC_IP env, None),
                        (Some ''ns2'', ''A'', PUBLIC_IP env, None)] @
                       (if truthy (PUBLIC_IPV6 env)
                        then [(Some ''ns1'', ''AAAA'', the (PUBLIC_IPV6 env), None),
                              (Some ''ns2'', ''AAAA'', the (PUBLIC_IPV6 env), None)]
                        else []) @
                       [(None, ''A'', PUBLIC_IP env, Some ''Required. Sets the IP address of the box.'')] @
                       (if truthy (PUBLIC_IPV6 env)
                        then [(None, ''AAAA'', the (PUBLIC_IPV6 env),
                                 Some ''Required. Sets the IPv6 address of the box.'')]
                        else []) @
                       [(Some ''_25._tcp'', ''TLSA'', tlsa,
                           Some ''Recommended when DNSSEC is enabled. Advertises to mail servers connecting to the box that mandatory encryption should be used.'')] @
                       map (\<lambda>value. (None, ''SSHFP'', value,
                              Some ''Optional. Provides an out-of-band method for verifying an SSH key before connecting. Use 'VerifyHostKeyDNS yes' (or 'VerifyHostKeyDNS ask') when connecting with ssh.''))
                         sshfp @
                       mail)))
         else Inr (records @ mail))"

text \<open>Lines 178 to 185: the records of one subzone under their names in this zone.\<close>

definition requalify :: "string \<Rightarrow> dns_record \<Rightarrow> dns_record" where
  "requalify subdomain_qname rec =
     ((case fst rec of
         None \<Rightarrow> Some subdomain_qname
       | Some child_qname \<Rightarrow> Some (child_qname @ ''.'' @ subdomain_qname)),
      snd rec)"

text \<open>The loop over the subdomains, given the result of the recursive call for each;
  the first call that raises ends the loop.\<close>

fun add_subzones ::
  "string \<Rightarrow> dns_record list \<Rightarrow> (string \<times> (error + dns_record list)) list \<Rightarrow> error + dns_record list" where
  "add_subzones domain records [] = Inr records"
| "add_subzones domain records (sub # rest) =
     (case snd sub of
        Inl e \<Rightarrow> Inl e
      | Inr subzone \<Rightarrow>
          add_subzones domain
            (records @
               map (requalify (take (length (fst sub) - length (''.'' @ domain)) (fst sub))) subzone)
            rest)"

subsection \<open>\<^verbatim>\<open>get_custom_records\<close>\<close>

text \<open>The list \<^verbatim>\<open>values\<close> of one entry of the custom records.\<close>

definition entry_values :: "environ \<Rightarrow> custom_value \<Rightarrow> error + (string \<times> string) list" where
  "entry_values env v =
     (case v of
        Short value \<Rightarrow>
          Inr ([(''A'', value)] @
               (if value = ''local'' \<and> truthy (PUBLIC_IPV6 env) then [(''AAAA'', value)] else []))
      | Mapping m \<Rightarrow> Inr m
      | Other \<Rightarrow> Inl (ValueError []))"

text \<open>The body of the inner loop: what one pair of \<^verbatim>\<open>values\<close> yields.\<close>

definition yield_value :: "environ \<Rightarrow> string option \<Rightarrow> string \<times> string \<Rightarrow> (string option \<times> string \<times> string) list" where
  "yield_value env qname rv =
     (if fst rv = ''A'' \<and> snd rv = ''local'' then [(qname, fst rv, PUBLIC_IP env)]
      else if fst rv = ''AAAA'' \<and> snd rv = ''local'' then
        (case PUBLIC_IPV6 env of None \<Rightarrow> [] | Some v6 \<Rightarrow> [(qname, fst rv, v6)])
      else [(qname, fst rv, snd rv)])"

text \<open>The generator, run to its end: the list of what it yields, or the exception that
  it raises on the way.\<close>

fun get_custom_records ::
  "string \<Rightarrow> custom_config \<Rightarrow> environ \<Rightarrow> error + (string option \<times> string \<times> string) list" where
  "get_custom_records domain [] env = Inr []"
| "get_custom_records domain (entry # rest) env =
     (if fst entry \<noteq> domain \<and> \<not> endswith (fst entry) (''.'' @ domain)
      then get_custom_records domain rest env
      else
        (let qname =
               (if fst entry = domain then None
                else Some (take (length (fst entry) - length (''.'' @ domain)) (fst entry)))
         in case entry_values env (snd entry) of
              Inl e \<Rightarrow> Inl e
            | Inr values \<Rightarrow>
                (case get_custom_records domain rest env of
                   Inl e \<Rightarrow> Inl e
                 | Inr later \<Rightarrow> Inr (concat (map (yield_value env qname) values) @ later))))"

subsection \<open>The rest of \<^verbatim>\<open>build_zone\<close>\<close>

text \<open>Lines 194 to 196: a custom record is added unless the name already has a record
  of its type.\<close>

fun add_custom_records ::
  "dns_record list \<Rightarrow> (string option \<times> string \<times> string) list \<Rightarrow> dns_record list" where
  "add_custom_records records [] = records"
| "add_custom_records records (c # rest) =
     add_custom_records
       (if has_rec records (fst c) (fst (snd c)) None then records
        else records @ [(fst c, fst (snd c), snd (snd c), Some ''(Set by user.)'')])
       rest"

definition defaults ::
  "string \<Rightarrow> environ \<Rightarrow> (string option \<times> string \<times> string option \<times> string) list" where
  "defaults domain env =
     [(None, ''A'', Some (PUBLIC_IP env),
         ''Required. May have a different value. Sets the IP address that '' @ domain @ '' resolves to for web hosting and other services besides mail. The A record must be present but its value does not affect mail delivery.''),
      (Some ''www'', ''A'', Some (PUBLIC_IP env),
         ''Optional. Sets the IP address that www.'' @ domain @ '' resolves to, e.g. for web hosting.''),
      (None, ''AAAA'', PUBLIC_IPV6 env,
         ''Optional. Sets the IPv6 address that '' @ domain @ '' resolves to, e.g. for web hosting. (It is not necessary for receiving mail on this domain.)''),
      (Some ''www'', ''AAAA'', PUBLIC_IPV6 env,
         ''Optional. Sets the IPv6 address that www.'' @ domain @ '' resolves to, e.g. for web hosting.'')]"

text \<open>Lines 205 to 209.\<close>

fun add_defaults ::
  "bool \<Rightarrow> dns_record list \<Rightarrow> (string option \<times> string \<times> string option \<times> string) list \<Rightarrow> dns_record list" where
  "add_defaults is_zone records [] = records"
| "add_defaults is_zone records (d # rest) =
     add_defaults is_zone
       (case d of (qname, rtype, value, explanation) \<Rightarrow>
          if value = None \<or> strip (the value) = [] then records
          else if \<not> is_zone \<and> qname = Some ''www'' then records
          else if \<not> has_rec records qname rtype None
            then records @ [(qname, rtype, the value, Some explanation)]
          else records)
       rest"

definition dmarc_qname :: "string option \<Rightarrow> string" where
  "dmarc_qname qname = ''_dmarc'' @ (case qname of None \<Rightarrow> [] | Some q \<Rightarrow> ''.'' @ q)"

definition strict_spf :: "string option \<Rightarrow> dns_record" where
  "strict_spf qname =
     (qname, ''TXT'', ''v=spf1 a mx -all'',
      Some ''Prevents unauthorized use of this domain name for outbound mail by requiring outbound mail to originate from the indicated host(s).'')"

definition strict_dmarc :: "string option \<Rightarrow> dns_record" where
  "strict_dmarc qname =
     (Some (dmarc_qname qname), ''TXT'', ''v=DMARC1; p=reject'',
      Some ''Prevents unauthorized use of this domain name for outbound mail by requiring a valid DKIM signature.'')"

text \<open>Lines 223 to 228, over the names of \<^verbatim>\<open>all_resolvable_qnames\<close>.\<close>

fun add_strict_policy :: "dns_record list \<Rightarrow> string option list \<Rightarrow> dns_record list" where
  "add_strict_policy records [] = records"
| "add_strict_policy records (qname # rest) =
     (let records1 =
            (if \<not> has_rec records qname ''TXT'' (Some ''v=spf1 '')
             then records @ [strict_spf qname] else records);
          records2 =
            (if \<not> has_rec records1 (Some (dmarc_qname qname)) ''TXT'' (Some ''v=DMARC1; '')
             then records1 @ [strict_dmarc qname] else records1)
      in add_strict_policy records2 rest)"

text \<open>The set \<^verbatim>\<open>all_resolvable_qnames\<close>, iterated in the order of first occurrence
  (Python leaves the order of a set open).\<close>

definition all_resolvable_qnames :: "dns_record list \<Rightarrow> string option list" where
  "all_resolvable_qnames records =
     rev (remdups (rev (map fst (filter (\<lambda>r. fst (snd r) = ''A'' \<or> fst (snd r) = ''AAAA'') records))))"

text \<open>The sort key of line 232: the labels of the name in reverse, and the empty list
  for the zone itself.\<close>

definition sort_records :: "dns_record list \<Rightarrow> dns_record list" where
  "sort_records records =
     sort_key (\<lambda>rec. case fst rec of None \<Rightarrow> [] | Some q \<Rightarrow> rev (split (CHR ''.'') q)) records"

text \<open>Lines 193 to 234, from the custom records to the sorted list.\<close>

definition zone_tail ::
  "string \<Rightarrow> custom_config \<Rightarrow> environ \<Rightarrow> collaborators \<Rightarrow> bool \<Rightarrow> dns_record list
     \<Rightarrow> error + dns_record list" where
  "zone_tail domain additional_records env ext is_zone records =
     (case get_custom_records domain additional_records env of
        Inl e \<Rightarrow> Inl e
      | Inr custom \<Rightarrow>
          (let records1 = add_custom_records records custom;
               records2 = add_defaults is_zone records1 (defaults domain env)
           in case opendkim_record ext of
                NoFile \<Rightarrow> Inl OSError
              | NoMatch \<Rightarrow> Inl AttributeError
              | Match g1 g2 g3 \<Rightarrow>
                  (let records3 = records2 @
                         [(Some g1, ''TXT'', g2 @ g3,
                             Some (''Recommended. Provides a way for recipients to verify that this machine sent @'' @ domain @ '' mail.'')),
                          (Some ''_dmarc'', ''TXT'', ''v=DMARC1; p=quarantine'',
                             Some (''Optional. Specifies that mail that does not originate from the box but claims to be from @'' @ domain @ '' is suspect and should be quarantined by the recipient's mail system.''))];
                       records4 = add_strict_policy records3 (all_resolvable_qnames records3)
                   in Inr (sort_records records4))))"

text \<open>\<^verbatim>\<open>build_zone\<close>. \<open>all_domains\<close> is the set of domains in its iteration order; the
  recursive call for a subdomain gets no domains and no custom records.\<close>

fun build_zone ::
  "string \<Rightarrow> string list \<Rightarrow> custom_config \<Rightarrow> environ \<Rightarrow> collaborators \<Rightarrow> bool
     \<Rightarrow> error + dns_record list" where
  "build_zone domain all_domains additional_records env ext is_zone =
     (case zone_head domain env ext is_zone of
        Inl e \<Rightarrow> Inl e
      | Inr records \<Rightarrow>
          (case add_subzones domain records
                  (map (\<lambda>subdomain. (subdomain, build_zone subdomain [] [] env ext False))
                     (filter (\<lambda>d. endswith d (''.'' @ domain)) all_domains)) of
             Inl e \<Rightarrow> Inl e
           | Inr records' \<Rightarrow> zone_tail domain additional_records env ext is_zone records'))"

declare build_zone.simps [simp del]

subsection \<open>Notions used in the statements about \<^verbatim>\<open>build_zone\<close>\<close>

text \<open>What the strict policy step appends for a list of names, read off the records
  before the step.\<close>

definition policy_for :: "dns_record list \<Rightarrow> string option \<Rightarrow> dns_record list" where
  "policy_for records q =
     (if \<not> has_rec records q ''TXT'' (Some ''v=spf1 '') then [strict_spf q] else []) @
     (if \<not> has_rec records (Some (dmarc_qname q)) ''TXT'' (Some ''v=DMARC1; '')
      then [strict_dmarc q] else [])"

text \<open>An A record at the apex of the zone.\<close>

definition apexA :: "dns_record \<Rightarrow> bool" where
  "apexA r = (fst r = None \<and> fst (snd r) = ''A'')"

text \<open>The value of a custom A record as \<^verbatim>\<open>get_custom_records\<close> yields it: \<^verbatim>\<open>local\<close>
  stands for the address of the box.\<close>

definition resolved :: "environ \<Rightarrow> string \<Rightarrow> string" where
  "resolved env v = (if v = ''local'' then PUBLIC_IP env else v)"

text \<open>The name of a subdomain inside the zone (line 177).\<close>

definition subdomain_qname :: "string \<Rightarrow> string \<Rightarrow> string" where
  "subdomain_qname domain subdomain = take (length subdomain - length (''.'' @ domain)) subdomain"

text \<open>A record that is not marked as set by the user and, if it is an A or AAAA record,
  carries the address of the box.\<close>

definition builtin :: "environ \<Rightarrow> dns_record \<Rightarrow> bool" where
  "builtin env r =
     (snd (snd (snd r)) \<noteq> Some ''(Set by user.)'' \<and>
      (fst (snd r) = ''A'' \<longrightarrow> fst (snd (snd r)) = PUBLIC_IP env) \<and>
      (fst (snd r) = ''AAAA'' \<longrightarrow> PUBLIC_IPV6 env = Some (fst (snd (snd r)))))"

subsection \<open>Sample inputs\<close>

text \<open>A stand-in for \<^verbatim>\<open>ipaddress.ip_address\<close> in the samples: four dot-separated
  groups of one to three digits are IPv4, a string with a colon is IPv6.\<close>

definition sample_ip_address :: "string \<Rightarrow> ip_class option" where
  "sample_ip_address v =
     (if length (split (CHR ''.'') v) = 4 \<and>
         list_all (\<lambda>p. p \<noteq> [] \<and> length p \<le> 3 \<and> list_all isdigit p) (split (CHR ''.'') v)
      then Some IPv4Address
      else if CHR '':'' \<in> set v then Some IPv6Address
      else None)"

text \<open>A stand-in for \<^verbatim>\<open>str.upper\<close> in the samples, which are ASCII text: on ASCII
  text \<^verbatim>\<open>str.upper\<close> maps the letters a to z to A to Z and keeps every other
  character.\<close>

definition sample_upper_char :: "char \<Rightarrow> char" where
  "sample_upper_char c =
     (case map_of (zip ''abcdefghijklmnopqrstuvwxyz'' ''ABCDEFGHIJKLMNOPQRSTUVWXYZ'') c of
        Some u \<Rightarrow> u
      | None \<Rightarrow> c)"

definition sample_upper :: "string \<Rightarrow> string" where
  "sample_upper s = map sample_upper_char s"

definition ext0 :: collaborators where
  "ext0 = \<lparr>get_mail_domains = [''mail.example.com'', ''example.com'', ''example.org''],
     safe_domain_name = (\<lambda>d. d), sort_domains = (\<lambda>names. names),
     ip_address = sample_ip_address, upper = sample_upper,
     certificate_sha256 = Some ''5f2b'', ssh_keyscan = Some ''localhost ssh-rsa QUJD'',
     sha256_of_base64 = (\<lambda>k. Some ''B5D4''),
     opendkim_record = Match ''mail._domainkey'' ''v=DKIM1; k=rsa; '' ''p=MIGf''\<rparr>"

definition env0 :: environ where
  "env0 = \<lparr>PRIMARY_HOSTNAME = ''box.example.com'', PUBLIC_IP = ''203.0.113.1'', PUBLIC_IPV6 = None\<rparr>"

text \<open>The same box with an IPv6 address.\<close>

definition env1 :: environ where
  "env1 = \<lparr>PRIMARY_HOSTNAME = ''box.example.com'', PUBLIC_IP = ''203.0.113.1'',
            PUBLIC_IPV6 = Some ''2001:db8::2''\<rparr>"

(*DEFS-END*)

section \<open>Verification\<close>

subsection \<open>The zone apexes\<close>

lemma set_set_add: "set (set_add xs x) = insert x (set xs)"
  by (auto simp: set_add_def)

lemma distinct_set_add: "distinct xs \<Longrightarrow> distinct (set_add xs x)"
  by (auto simp: set_add_def)

lemma set_set_union: "set (set_union xs ys) = set xs \<union> set ys"
  unfolding set_union_def by (induction ys arbitrary: xs) (auto simp: set_set_add)

lemma endswith_length: "endswith s (''.'' @ t) \<Longrightarrow> length t < length s"
  unfolding endswith_def by (auto simp: suffix_def)

lemma zone_scan_mono: "set zs \<subseteq> set (zone_scan zs ds)"
proof (induction ds arbitrary: zs)
  case Nil
  then show ?case by simp
next
  case (Cons d ds)
  let ?zs' = "if list_ex (\<lambda>z. endswith d (''.'' @ z)) zs then zs else set_add zs d"
  have "set zs \<subseteq> set ?zs'" by (auto simp: set_set_add)
  also have "\<dots> \<subseteq> set (zone_scan ?zs' ds)" by (rule Cons.IH)
  finally show ?case by simp
qed

lemma zone_scan_subset: "set (zone_scan zs ds) \<subseteq> set zs \<union> set ds"
proof (induction ds arbitrary: zs)
  case Nil
  then show ?case by simp
next
  case (Cons d ds)
  let ?zs' = "if list_ex (\<lambda>z. endswith d (''.'' @ z)) zs then zs else set_add zs d"
  have "set (zone_scan ?zs' ds) \<subseteq> set ?zs' \<union> set ds" by (rule Cons.IH)
  also have "\<dots> \<subseteq> set zs \<union> set (d # ds)" by (auto simp: set_set_add)
  finally show ?case by simp
qed

lemma zone_scan_distinct: "distinct zs \<Longrightarrow> distinct (zone_scan zs ds)"
  by (induction ds arbitrary: zs) (auto simp: distinct_set_add)

lemma zone_scan_cover:
  "d \<in> set ds \<Longrightarrow>
     d \<in> set (zone_scan zs ds) \<or> (\<exists>z\<in>set (zone_scan zs ds). endswith d (''.'' @ z))"
proof (induction ds arbitrary: zs)
  case Nil
  then show ?case by simp
next
  case (Cons x ds)
  show ?case
  proof (cases "d = x")
    case True
    let ?zs' = "if list_ex (\<lambda>z. endswith x (''.'' @ z)) zs then zs else set_add zs x"
    have "x \<in> set ?zs' \<or> (\<exists>z\<in>set ?zs'. endswith x (''.'' @ z))"
      by (auto simp: set_set_add list_ex_iff)
    moreover have "set ?zs' \<subseteq> set (zone_scan ?zs' ds)" by (rule zone_scan_mono)
    ultimately show ?thesis using True by auto
  next
    case False
    with Cons.prems have "d \<in> set ds" by simp
    from Cons.IH [OF this] show ?thesis by simp
  qed
qed

lemma zone_scan_antichain:
  "antichain zs \<Longrightarrow> sorted (map length ds) \<Longrightarrow>
   \<forall>z\<in>set zs. \<forall>d\<in>set ds. length z \<le> length d \<Longrightarrow>
   antichain (zone_scan zs ds)"
proof (induction ds arbitrary: zs)
  case Nil
  then show ?case by simp
next
  case (Cons x ds)
  let ?zs' = "if list_ex (\<lambda>z. endswith x (''.'' @ z)) zs then zs else set_add zs x"
  have a: "antichain ?zs'"
  proof (cases "list_ex (\<lambda>z. endswith x (''.'' @ z)) zs")
    case True
    with Cons.prems(1) show ?thesis by simp
  next
    case False
    then have nopar: "\<forall>z\<in>set zs. \<not> endswith x (''.'' @ z)" by (simp add: list_ex_iff)
    have nochild: "\<forall>z\<in>set zs. \<not> endswith z (''.'' @ x)"
      using Cons.prems(3) endswith_length by fastforce
    have self: "\<not> endswith x (''.'' @ x)" using endswith_length by blast
    from False nopar nochild self Cons.prems(1) show ?thesis
      unfolding antichain_def by (auto simp: set_set_add)
  qed
  have s: "sorted (map length ds)" using Cons.prems(2) by simp
  have l: "\<forall>z\<in>set ?zs'. \<forall>d\<in>set ds. length z \<le> length d"
    using Cons.prems(2,3) by (auto simp: set_set_add)
  from Cons.IH [OF a s l] show ?case by simp
qed

lemma antichain_unique:
  assumes "antichain zs" "a \<in> set zs" "b \<in> set zs"
    and "d = a \<or> endswith d (''.'' @ a)" and "d = b \<or> endswith d (''.'' @ b)"
  shows "a = b"
proof -
  have step: "x = y" if "suffix (''.'' @ x) (''.'' @ y)" "x \<in> set zs" "y \<in> set zs" for x y
  proof -
    from that(1) obtain p where p: "''.'' @ y = p @ ''.'' @ x" by (auto simp: suffix_def)
    show ?thesis
    proof (cases p)
      case Nil
      with p show ?thesis by simp
    next
      case (Cons c p')
      with p have "y = p' @ ''.'' @ x" by simp
      then have "endswith y (''.'' @ x)" by (simp add: endswith_def suffix_def)
      with assms(1) that(2,3) show ?thesis by (auto simp: antichain_def)
    qed
  qed
  from assms(4,5) consider "d = a" "d = b" | "d = a" "endswith d (''.'' @ b)"
    | "endswith d (''.'' @ a)" "d = b" | "endswith d (''.'' @ a)" "endswith d (''.'' @ b)"
    by blast
  then show ?thesis
  proof cases
    case 1 then show ?thesis by simp
  next
    case 2 with assms(1-3) show ?thesis by (auto simp: antichain_def)
  next
    case 3 with assms(1-3) show ?thesis by (auto simp: antichain_def)
  next
    case 4
    then have "suffix (''.'' @ a) d" "suffix (''.'' @ b) d" by (simp_all add: endswith_def)
    then have "suffix (''.'' @ a) (''.'' @ b) \<or> suffix (''.'' @ b) (''.'' @ a)"
      by (rule suffix_same_cases)
    with step assms(2,3) show ?thesis by blast
  qed
qed

lemma get_dns_zones_apexes:
  assumes "get_dns_zones ext env = Inr zonefiles"
  shows "set (map fst zonefiles) = set (zone_scan [] (sort_key length (get_dns_domains ext env)))"
    and "distinct (map fst zonefiles)"
proof -
  define zs where "zs = zone_scan [] (sort_key length (get_dns_domains ext env))"
  define zf where "zf = map (\<lambda>domain. (domain, safe_domain_name ext domain @ ''.txt'')) zs"
  define K where "K = (\<lambda>zone :: string \<times> string. the (index (sort_domains ext (map fst zf)) (fst zone)))"
  have "get_dns_zones ext env =
      (if list_ex (\<lambda>zone. index (sort_domains ext (map fst zf)) (fst zone) = None) zf
       then Inl (ValueError ''is not in list'') else Inr (sort_key K zf))"
    unfolding get_dns_zones_def Let_def zf_def K_def zs_def ..
  with assms have "sort_key K zf = zonefiles" by (simp split: if_splits)
  moreover have "mset (sort_key K zf) = mset zf" by (rule mset_sort)
  ultimately have m: "mset zonefiles = mset zf" by simp
  have "image_mset fst (mset zonefiles) = image_mset fst (mset zf)"
    by (rule arg_cong [OF m])
  then have "mset (map fst zonefiles) = mset (map fst zf)" by (simp only: mset_map)
  moreover have "map fst zf = zs" unfolding zf_def by (simp add: comp_def)
  ultimately have mm: "mset (map fst zonefiles) = mset zs" by simp
  from mm show "set (map fst zonefiles) = set (zone_scan [] (sort_key length (get_dns_domains ext env)))"
    unfolding zs_def by (rule mset_eq_setD)
  have "distinct zs" unfolding zs_def by (rule zone_scan_distinct) simp
  then show "distinct (map fst zonefiles)"
    unfolding mset_eq_imp_distinct_iff [OF mm] .
qed

text \<open>
  C4. The apexes that \<^verbatim>\<open>get_dns_zones\<close> returns are pairwise unrelated (none ends with
  a dot followed by another), are input domains listed once each, and every input
  domain is covered by exactly one of them: it is that apex or ends with a dot followed
  by it. The call returns whenever \<^verbatim>\<open>sort_domains\<close> drops none of the names it is
  given (\<^verbatim>\<open>list.index\<close> raises otherwise).
\<close>

theorem get_dns_zones_minimal_cover:
  "(\<forall>zonefiles. get_dns_zones ext env = Inr zonefiles \<longrightarrow>
      distinct (map fst zonefiles) \<and>
      set (map fst zonefiles) \<subseteq> set (get_dns_domains ext env) \<and>
      (\<forall>a\<in>set (map fst zonefiles). \<forall>b\<in>set (map fst zonefiles).
          \<not> endswith a (''.'' @ b)) \<and>
      (\<forall>d\<in>set (get_dns_domains ext env).
          \<exists>!a. a \<in> set (map fst zonefiles) \<and> (d = a \<or> endswith d (''.'' @ a)))) \<and>
   ((\<forall>names. set names \<subseteq> set (sort_domains ext names)) \<longrightarrow>
      (\<exists>zonefiles. get_dns_zones ext env = Inr zonefiles))"
proof (intro conjI allI impI)
  fix zonefiles
  assume r: "get_dns_zones ext env = Inr zonefiles"
  let ?ds = "get_dns_domains ext env"
  let ?zs = "zone_scan [] (sort_key length ?ds)"
  have ap: "set (map fst zonefiles) = set ?zs" by (rule get_dns_zones_apexes(1) [OF r])
  show "distinct (map fst zonefiles)" by (rule get_dns_zones_apexes(2) [OF r])
  show "set (map fst zonefiles) \<subseteq> set ?ds"
    using zone_scan_subset [of "[]" "sort_key length ?ds"] ap by simp
  have anti: "antichain ?zs"
    by (rule zone_scan_antichain) (simp_all add: antichain_def)
  then show "\<forall>a\<in>set (map fst zonefiles). \<forall>b\<in>set (map fst zonefiles).
      \<not> endswith a (''.'' @ b)"
    unfolding ap antichain_def .
  show "\<forall>d\<in>set ?ds. \<exists>!a. a \<in> set (map fst zonefiles) \<and> (d = a \<or> endswith d (''.'' @ a))"
  proof
    fix d assume "d \<in> set ?ds"
    then have "d \<in> set (sort_key length ?ds)" by simp
    from zone_scan_cover [OF this, of "[]"]
    have ex: "\<exists>a. a \<in> set ?zs \<and> (d = a \<or> endswith d (''.'' @ a))" by blast
    have "\<exists>!a. a \<in> set ?zs \<and> (d = a \<or> endswith d (''.'' @ a))"
    proof (rule ex_ex1I [OF ex])
      fix a b
      assume A: "a \<in> set ?zs \<and> (d = a \<or> endswith d (''.'' @ a))"
        and B: "b \<in> set ?zs \<and> (d = b \<or> endswith d (''.'' @ b))"
      show "a = b"
        by (rule antichain_unique [OF anti conjunct1 [OF A] conjunct1 [OF B]
              conjunct2 [OF A] conjunct2 [OF B]])
    qed
    then show "\<exists>!a. a \<in> set (map fst zonefiles) \<and> (d = a \<or> endswith d (''.'' @ a))"
      unfolding ap .
  qed
next
  assume s: "\<forall>names. set names \<subseteq> set (sort_domains ext names)"
  have ix: "index ys x \<noteq> None" if "x \<in> set ys" for ys :: "string list" and x
    using that by (induction ys) auto
  have "\<not> list_ex (\<lambda>zone. index (sort_domains ext (map fst zf)) (fst zone) = None) zf"
    for zf :: "(string \<times> string) list"
  proof -
    have "index (sort_domains ext (map fst zf)) (fst z) \<noteq> None" if "z \<in> set zf" for z
    proof (rule ix)
      from that have "fst z \<in> set (map fst zf)" by simp
      with s show "fst z \<in> set (sort_domains ext (map fst zf))" by blast
    qed
    then show ?thesis unfolding list_ex_iff by blast
  qed
  then show "\<exists>zonefiles. get_dns_zones ext env = Inr zonefiles"
    unfolding get_dns_zones_def Let_def by (simp only: if_False) blast
qed

theorem get_dns_zones_minimal_cover_witness:
  "get_dns_zones ext0 env0 =
     Inr [(''example.com'', ''example.com.txt''), (''example.org'', ''example.org.txt'')] \<and>
   \<not> endswith ''example.org'' (''.'' @ ''example.com'') \<and>
   (\<exists>!a. a \<in> set [''example.com'', ''example.org''] \<and>
      (''mail.example.com'' = a \<or> endswith ''mail.example.com'' (''.'' @ a)))"
proof -
  have r: "get_dns_zones ext0 env0 =
     Inr [(''example.com'', ''example.com.txt''), (''example.org'', ''example.org.txt'')]"
    by (simp add: get_dns_zones_def get_dns_domains_def ext0_def env0_def set_union_def
        set_add_def endswith_def suffix_to_prefix Let_def)
  have d: "''mail.example.com'' \<in> set (get_dns_domains ext0 env0)"
    by (simp add: get_dns_domains_def ext0_def env0_def set_union_def set_add_def)
  from get_dns_zones_minimal_cover [of ext0 env0] r
  have "\<forall>d\<in>set (get_dns_domains ext0 env0).
      \<exists>!a. a \<in> set (map fst [(''example.com'', ''example.com.txt''), (''example.org'', ''example.org.txt'')])
        \<and> (d = a \<or> endswith d (''.'' @ a))"
    by blast
  from bspec [OF this d]
  have "\<exists>!a. a \<in> set [''example.com'', ''example.org''] \<and>
      (''mail.example.com'' = a \<or> endswith ''mail.example.com'' (''.'' @ a))"
    by simp
  moreover have "\<not> endswith ''example.org'' (''.'' @ ''example.com'')"
    by (simp add: endswith_def suffix_to_prefix)
  ultimately show ?thesis using r by blast
qed


subsection \<open>The custom records store\<close>

lemma zones0: "get_dns_zones ext0 env0 =
     Inr [(''example.com'', ''example.com.txt''), (''example.org'', ''example.org.txt'')]"
  by (simp add: get_dns_zones_def get_dns_domains_def ext0_def env0_def set_union_def
      set_add_def endswith_def suffix_to_prefix Let_def)

lemma upper_samples:
  "upper ext0 ''A'' = ''A''" "upper ext0 ''a'' = ''A''" "upper ext0 ''TXT'' = ''TXT''"
  "upper ext0 ''MX'' = ''MX''" "upper ext0 ''txt'' = ''TXT''" "upper ext0 ''AAAA'' = ''AAAA''"
  by (simp_all add: ext0_def sample_upper_def sample_upper_char_def)

lemma ext0_ip: "ip_address ext0 = sample_ip_address"
  by (simp add: ext0_def)

lemma sample_ip_v4: "sample_ip_address ''203.0.113.5'' = Some IPv4Address"
  by (simp add: sample_ip_address_def isdigit_def)

lemma managed0:
  "is_managed [(''example.com'', ''example.com.txt''), (''example.org'', ''example.org.txt'')]
     ''www.example.com''"
  "\<not> is_managed [(''example.com'', ''example.com.txt''), (''example.org'', ''example.org.txt'')]
     ''www.example.net''"
  by (simp_all add: is_managed_def endswith_def suffix_to_prefix)

lemma get_dns_zones_error: "get_dns_zones ext env = Inl e \<Longrightarrow> \<exists>msg. e = ValueError msg"
  unfolding get_dns_zones_def Let_def by (auto split: if_splits)

lemma validate_rtype_error: "validate_rtype ext rtype val = Some e \<Longrightarrow> \<exists>msg. e = ValueError msg"
  unfolding validate_rtype_def by (auto split: option.splits if_splits)

lemma update_config_not_ValueError: "fst (update_config qname rtype val config) \<noteq> Inl (ValueError msg)"
  unfolding update_config_def by (simp split: option.split custom_value.split add: Let_def)

lemma update_config_error_unchanged:
  "fst (update_config qname rtype val config) = Inl e \<Longrightarrow> snd (update_config qname rtype val config) = config"
  unfolding update_config_def by (simp split: option.splits custom_value.splits if_splits add: Let_def)

text \<open>
  C7. Setting a record to the value it already has should return \<^verbatim>\<open>False\<close> and write
  nothing. The code compares the stored value with the literal \<^verbatim>\<open>"value"\<close>, so for a
  name stored in short form with A value 203.0.113.5, and for a name in mapping form with
  TXT value hello, setting the same value again returns \<^verbatim>\<open>True\<close> and writes the
  file.
\<close>

theorem set_custom_dns_record_same_value_rewrites:
  "set_custom_dns_record ''www.example.com'' ''A'' (Some ''203.0.113.5'') ext0 env0
      [(''www.example.com'', Short ''203.0.113.5'')] =
     (Inr True, [(''www.example.com'', Short ''203.0.113.5'')]) \<and>
   set_custom_dns_record ''www.example.com'' ''TXT'' (Some ''hello'') ext0 env0
      [(''www.example.com'', Mapping [(''TXT'', ''hello'')])] =
     (Inr True, [(''www.example.com'', Mapping [(''TXT'', ''hello'')])])"
  by (simp add: set_custom_dns_record_def zones0 managed0 validate_rtype_def upper_samples
      ext0_ip sample_ip_v4 update_config_def)

text \<open>
  C8, as stated, fails: a delete for a name that is absent from the store raises when the
  name is under no managed zone, and a delete of type \<^verbatim>\<open>a\<close> on a short-form name
  removes the A record, since the type is upper-cased first.
\<close>

theorem delete_missing_record_counterexample:
  "map_of ([] :: custom_config) ''www.example.net'' = None \<and>
   set_custom_dns_record ''www.example.net'' ''TXT'' None ext0 env0 [] =
     (Inl (ValueError (''www.example.net'' @
        '' is not a domain name or a subdomain of a domain name managed by this box.'')), []) \<and>
   set_custom_dns_record ''www.example.com'' ''a'' None ext0 env0
      [(''www.example.com'', Short ''203.0.113.5'')] = (Inr True, [])"
  by (simp add: set_custom_dns_record_def zones0 managed0 validate_rtype_def upper_samples
      update_config_def dict_del_def)

text \<open>
  C8, amended. For a name under a managed zone, when the store holds no record of the
  type \<^verbatim>\<open>rtype.upper()\<close> for it (the name is absent, or in short form and that type is
  not A, or in mapping form without that key), the delete returns \<^verbatim>\<open>False\<close> and the
  store is unchanged, whatever \<^verbatim>\<open>str.upper\<close> returns.
\<close>

theorem delete_missing_record_noop:
  assumes "get_dns_zones ext env = Inr zones" and "is_managed zones qname"
    and "map_of store qname = None \<or>
         (\<exists>v. map_of store qname = Some (Short v) \<and> upper ext rtype \<noteq> ''A'') \<or>
         (\<exists>m. map_of store qname = Some (Mapping m) \<and> upper ext rtype \<notin> fst ` set m)"
  shows "set_custom_dns_record qname rtype None ext env store = (Inr False, store)"
proof -
  have "update_config qname (upper ext rtype) None store = (Inr False, store)"
    using assms(3) unfolding update_config_def
    by (auto simp: map_of_eq_None_iff [symmetric])
  with assms(1,2) show ?thesis
    by (simp add: set_custom_dns_record_def validate_rtype_def)
qed

theorem delete_missing_record_noop_witness:
  "set_custom_dns_record ''www.example.com'' ''txt'' None ext0 env0
      [(''www.example.com'', Short ''203.0.113.5'')] =
     (Inr False, [(''www.example.com'', Short ''203.0.113.5'')])"
proof -
  have "upper ext0 ''txt'' \<noteq> ''A''" by (simp add: upper_samples)
  then have "map_of [(''www.example.com'', Short ''203.0.113.5'')] ''www.example.com'' = None \<or>
      (\<exists>v. map_of [(''www.example.com'', Short ''203.0.113.5'')] ''www.example.com'' = Some (Short v)
         \<and> upper ext0 ''txt'' \<noteq> ''A'') \<or>
      (\<exists>m. map_of [(''www.example.com'', Short ''203.0.113.5'')] ''www.example.com'' = Some (Mapping m)
         \<and> upper ext0 ''txt'' \<notin> fst ` set m)"
    by simp
  from delete_missing_record_noop [OF zones0 managed0(1) this] show ?thesis .
qed

text \<open>
  C9, as stated, fails for a record type outside A, AAAA, CNAME, TXT whose upper-cased
  form is inside: the type is upper-cased before it is checked (line 618), so type
  \<^verbatim>\<open>txt\<close> with a value raises nothing and the record is stored under \<^verbatim>\<open>TXT\<close>.
\<close>

theorem set_custom_dns_record_validation_counterexample:
  "''txt'' \<notin> {''A'', ''AAAA'', ''CNAME'', ''TXT''} \<and>
   set_custom_dns_record ''www.example.com'' ''txt'' (Some ''hello'') ext0 env0 [] =
     (Inr True, [(''www.example.com'', Mapping [(''TXT'', ''hello'')])])"
  by (simp add: set_custom_dns_record_def zones0 managed0 validate_rtype_def upper_samples
      update_config_def)

text \<open>
  C9, amended: the record type is read after \<^verbatim>\<open>rtype.upper()\<close>.
  \<^verbatim>\<open>set_custom_dns_record\<close> raises \<^verbatim>\<open>ValueError\<close> and leaves the store as it was
  when the name is under no managed zone, when a value comes with a type whose upper-cased
  form is other than A, AAAA, CNAME and TXT, when the upper-cased type is A and the value
  is not parsed as IPv4, and when it is AAAA and the value is not parsed as IPv6. For a
  managed name and upper-cased type CNAME or TXT no \<^verbatim>\<open>ValueError\<close> is raised, and
  whenever the call raises the store is unchanged.
\<close>

theorem set_custom_dns_record_validation:
  "(let r = set_custom_dns_record qname rtype val ext env store;
        rejected = (\<exists>msg. r = (Inl (ValueError msg), store))
    in ((\<forall>zones. get_dns_zones ext env = Inr zones \<longrightarrow> \<not> is_managed zones qname)
          \<longrightarrow> rejected) \<and>
       (val \<noteq> None \<and> upper ext rtype \<notin> {''A'', ''AAAA'', ''CNAME'', ''TXT''} \<longrightarrow> rejected) \<and>
       (upper ext rtype = ''A'' \<and> (\<exists>v. val = Some v \<and> ip_address ext v \<noteq> Some IPv4Address)
          \<longrightarrow> rejected) \<and>
       (upper ext rtype = ''AAAA'' \<and> (\<exists>v. val = Some v \<and> ip_address ext v \<noteq> Some IPv6Address)
          \<longrightarrow> rejected) \<and>
       ((\<exists>zones. get_dns_zones ext env = Inr zones \<and> is_managed zones qname) \<and>
        upper ext rtype \<in> {''CNAME'', ''TXT''} \<longrightarrow> (\<forall>msg. fst r \<noteq> Inl (ValueError msg))) \<and>
       (\<forall>e. fst r = Inl e \<longrightarrow> snd r = store))"
proof -
  define r where "r = set_custom_dns_record qname rtype val ext env store"
  define rejected where "rejected = (\<exists>msg. r = (Inl (ValueError msg), store))"
  have 1: "(\<forall>zones. get_dns_zones ext env = Inr zones \<longrightarrow> \<not> is_managed zones qname) \<longrightarrow> rejected"
    unfolding rejected_def r_def set_custom_dns_record_def
    by (auto split: sum.splits dest: get_dns_zones_error)
  have bad: "rejected" if "validate_rtype ext (upper ext rtype) val \<noteq> None"
  proof -
    from that obtain e where e: "validate_rtype ext (upper ext rtype) val = Some e" by auto
    from validate_rtype_error [OF e] obtain msg where "e = ValueError msg" ..
    with e show ?thesis
      unfolding rejected_def r_def set_custom_dns_record_def
      by (auto split: sum.splits dest: get_dns_zones_error)
  qed
  have 2: "val \<noteq> None \<and> upper ext rtype \<notin> {''A'', ''AAAA'', ''CNAME'', ''TXT''} \<longrightarrow> rejected"
    by (auto intro!: bad simp: validate_rtype_def)
  have 3: "upper ext rtype = ''A'' \<and> (\<exists>v. val = Some v \<and> ip_address ext v \<noteq> Some IPv4Address)
      \<longrightarrow> rejected"
    by (auto intro!: bad simp: validate_rtype_def split: option.splits)
  have 4: "upper ext rtype = ''AAAA'' \<and> (\<exists>v. val = Some v \<and> ip_address ext v \<noteq> Some IPv6Address)
      \<longrightarrow> rejected"
    by (auto intro!: bad simp: validate_rtype_def split: option.splits)
  have 5: "(\<exists>zones. get_dns_zones ext env = Inr zones \<and> is_managed zones qname) \<and>
        upper ext rtype \<in> {''CNAME'', ''TXT''} \<longrightarrow> (\<forall>msg. fst r \<noteq> Inl (ValueError msg))"
    unfolding r_def set_custom_dns_record_def
    by (auto simp: validate_rtype_def update_config_not_ValueError split: option.splits)
  have 6: "\<forall>e. fst r = Inl e \<longrightarrow> snd r = store"
    unfolding r_def set_custom_dns_record_def
    by (auto split: sum.splits option.splits simp: update_config_error_unchanged)
  from 1 2 3 4 5 6 show ?thesis
    unfolding Let_def rejected_def r_def by (intro conjI)
qed


theorem set_custom_dns_record_validation_witness:
  "(\<exists>msg. set_custom_dns_record ''www.example.net'' ''TXT'' (Some ''hello'') ext0 env0 [] =
      (Inl (ValueError msg), [])) \<and>
   (\<exists>msg. set_custom_dns_record ''www.example.com'' ''MX'' (Some ''hello'') ext0 env0 [] =
      (Inl (ValueError msg), [])) \<and>
   (\<exists>msg. set_custom_dns_record ''www.example.com'' ''A'' (Some ''::1'') ext0 env0 [] =
      (Inl (ValueError msg), [])) \<and>
   (\<exists>msg. set_custom_dns_record ''www.example.com'' ''AAAA'' (Some ''203.0.113.5'') ext0 env0 [] =
      (Inl (ValueError msg), [])) \<and>
   (\<forall>msg. fst (set_custom_dns_record ''www.example.com'' ''TXT'' (Some ''hello'') ext0 env0 [])
      \<noteq> Inl (ValueError msg))"
proof -
  have u: "upper ext0 ''MX'' \<notin> {''A'', ''AAAA'', ''CNAME'', ''TXT''}" "upper ext0 ''A'' = ''A''"
    "upper ext0 ''AAAA'' = ''AAAA''" "upper ext0 ''TXT'' \<in> {''CNAME'', ''TXT''}"
    by (simp_all add: upper_samples)
  have ip: "ip_address ext0 ''::1'' \<noteq> Some IPv4Address"
    "ip_address ext0 ''203.0.113.5'' \<noteq> Some IPv6Address"
    by (simp_all add: ext0_def sample_ip_address_def isdigit_def)
  have z: "\<forall>zones. get_dns_zones ext0 env0 = Inr zones \<longrightarrow> \<not> is_managed zones ''www.example.net''"
    by (simp add: zones0 managed0)
  have m: "\<exists>zones. get_dns_zones ext0 env0 = Inr zones \<and> is_managed zones ''www.example.com''"
    by (simp add: zones0 managed0)
  from z set_custom_dns_record_validation
    [where qname = "''www.example.net''" and rtype = "''TXT''" and val = "Some ''hello''"
       and ext = ext0 and env = env0 and store = "[]"]
  have 1: "\<exists>msg. set_custom_dns_record ''www.example.net'' ''TXT'' (Some ''hello'') ext0 env0 [] =
      (Inl (ValueError msg), [])"
    unfolding Let_def by blast
  from u(1) set_custom_dns_record_validation
    [where qname = "''www.example.com''" and rtype = "''MX''" and val = "Some ''hello''"
       and ext = ext0 and env = env0 and store = "[]"]
  have 2: "\<exists>msg. set_custom_dns_record ''www.example.com'' ''MX'' (Some ''hello'') ext0 env0 [] =
      (Inl (ValueError msg), [])"
    unfolding Let_def by blast
  from u(2) ip(1) set_custom_dns_record_validation
    [where qname = "''www.example.com''" and rtype = "''A''" and val = "Some ''::1''"
       and ext = ext0 and env = env0 and store = "[]"]
  have 3: "\<exists>msg. set_custom_dns_record ''www.example.com'' ''A'' (Some ''::1'') ext0 env0 [] =
      (Inl (ValueError msg), [])"
    unfolding Let_def by blast
  from u(3) ip(2) set_custom_dns_record_validation
    [where qname = "''www.example.com''" and rtype = "''AAAA''" and val = "Some ''203.0.113.5''"
       and ext = ext0 and env = env0 and store = "[]"]
  have 4: "\<exists>msg. set_custom_dns_record ''www.example.com'' ''AAAA'' (Some ''203.0.113.5'') ext0 env0 [] =
      (Inl (ValueError msg), [])"
    unfolding Let_def by blast
  from u(4) m set_custom_dns_record_validation
    [where qname = "''www.example.com''" and rtype = "''TXT''" and val = "Some ''hello''"
       and ext = ext0 and env = env0 and store = "[]"]
  have 5: "\<forall>msg. fst (set_custom_dns_record ''www.example.com'' ''TXT'' (Some ''hello'') ext0 env0 [])
      \<noteq> Inl (ValueError msg)"
    unfolding Let_def by blast
  from 1 2 3 4 5 show ?thesis by (intro conjI)
qed

subsection \<open>The records of a zone\<close>

lemma has_rec_iff:
  "has_rec records qname rtype pre \<longleftrightarrow>
     (\<exists>r\<in>set records. fst r = qname \<and> fst (snd r) = rtype \<and>
        (case pre of None \<Rightarrow> True | Some p \<Rightarrow> startswith (fst (snd (snd r))) p))"
  by (simp add: has_rec_def list_ex_iff)

lemma has_rec_append:
  "has_rec (xs @ ys) q t p \<longleftrightarrow> has_rec xs q t p \<or> has_rec ys q t p"
  by (auto simp: has_rec_iff)

lemma has_rec_Nil: "\<not> has_rec [] q t p"
  by (simp add: has_rec_iff)

lemma has_rec_cong_set: "set xs = set ys \<Longrightarrow> has_rec xs q t p = has_rec ys q t p"
  by (simp add: has_rec_iff)

lemma strict_spf_sel:
  "fst (strict_spf q) = q" "fst (snd (strict_spf q)) = ''TXT''"
  "fst (snd (snd (strict_spf q))) = ''v=spf1 a mx -all''"
  by (simp_all add: strict_spf_def)

lemma strict_dmarc_sel:
  "fst (strict_dmarc q) = Some (dmarc_qname q)" "fst (snd (strict_dmarc q)) = ''TXT''"
  "fst (snd (snd (strict_dmarc q))) = ''v=DMARC1; p=reject''"
  by (simp_all add: strict_dmarc_def)

lemma dmarc_qname_inj: "dmarc_qname q = dmarc_qname q' \<Longrightarrow> q = q'"
  by (auto simp: dmarc_qname_def split: option.splits)

lemma has_rec_strict_spf:
  "has_rec [strict_spf q] q' t p \<longleftrightarrow>
     q' = q \<and> t = ''TXT'' \<and> (case p of None \<Rightarrow> True | Some x \<Rightarrow> startswith ''v=spf1 a mx -all'' x)"
  by (cases p) (auto simp: has_rec_def strict_spf_sel)

lemma has_rec_strict_dmarc:
  "has_rec [strict_dmarc q] q' t p \<longleftrightarrow>
     q' = Some (dmarc_qname q) \<and> t = ''TXT'' \<and>
     (case p of None \<Rightarrow> True | Some x \<Rightarrow> startswith ''v=DMARC1; p=reject'' x)"
  by (cases p) (auto simp: has_rec_def strict_dmarc_sel)

lemma prefix_facts:
  "startswith ''v=spf1 a mx -all'' ''v=spf1 ''"
  "startswith ''v=DMARC1; p=reject'' ''v=DMARC1; ''"
  "\<not> startswith ''v=spf1 a mx -all'' ''v=DMARC1; ''"
  "\<not> startswith ''v=DMARC1; p=reject'' ''v=spf1 ''"
  by (simp_all add: startswith_def)

lemma add_strict_policy_step:
  "add_strict_policy records (q # qs) = add_strict_policy (records @ policy_for records q) qs"
  by (simp add: policy_for_def Let_def has_rec_append has_rec_strict_spf prefix_facts)

lemma policy_for_append:
  assumes "q' \<noteq> q"
  shows "policy_for (records @ policy_for records q) q' = policy_for records q'"
  using assms
  by (auto simp: policy_for_def has_rec_append has_rec_strict_spf has_rec_strict_dmarc
      has_rec_Nil prefix_facts dest: dmarc_qname_inj)

lemma add_strict_policy_additions:
  "distinct qs \<Longrightarrow>
     add_strict_policy records qs = records @ concat (map (policy_for records) qs)"
proof (induction qs arbitrary: records)
  case Nil
  then show ?case by simp
next
  case (Cons q qs)
  have m: "map (policy_for (records @ policy_for records q)) qs = map (policy_for records) qs"
    using Cons.prems by (intro map_cong refl policy_for_append) auto
  from Cons.prems have d: "distinct qs" by simp
  have "add_strict_policy records (q # qs) =
      add_strict_policy (records @ policy_for records q) qs"
    by (rule add_strict_policy_step)
  also have "\<dots> = (records @ policy_for records q) @
      concat (map (policy_for (records @ policy_for records q)) qs)"
    by (rule Cons.IH [OF d])
  finally show ?case unfolding m by simp
qed

lemma distinct_all_resolvable_qnames: "distinct (all_resolvable_qnames records)"
  by (simp add: all_resolvable_qnames_def)


lemma build_zone_leaf:
  "build_zone domain [] ar env ext z =
     (case zone_head domain env ext z of Inl e \<Rightarrow> Inl e
      | Inr records \<Rightarrow> zone_tail domain ar env ext z records)"
  by (subst build_zone.simps) (simp split: sum.splits)

lemma build_zone_unfold:
  "build_zone domain all_domains ar env ext z =
     (case zone_head domain env ext z of
        Inl e \<Rightarrow> Inl e
      | Inr records \<Rightarrow>
          (case add_subzones domain records
                  (map (\<lambda>subdomain. (subdomain,
                          (case zone_head subdomain env ext False of Inl e \<Rightarrow> Inl e
                           | Inr records \<Rightarrow> zone_tail subdomain [] env ext False records)))
                     (filter (\<lambda>d. endswith d (''.'' @ domain)) all_domains)) of
             Inl e \<Rightarrow> Inl e
           | Inr records' \<Rightarrow> zone_tail domain ar env ext z records'))"
  by (subst build_zone.simps) (simp only: build_zone_leaf)

lemma ext0_sel:
  "certificate_sha256 ext0 = Some ''5f2b''" "ssh_keyscan ext0 = Some ''localhost ssh-rsa QUJD''"
  "sha256_of_base64 ext0 = (\<lambda>k. Some ''B5D4'')"
  "upper ext0 = sample_upper" "opendkim_record ext0 = Match ''mail._domainkey'' ''v=DKIM1; k=rsa; '' ''p=MIGf''"
  by (simp_all add: ext0_def)

lemma env0_sel:
  "PRIMARY_HOSTNAME env0 = ''box.example.com''" "PUBLIC_IP env0 = ''203.0.113.1''"
  "PUBLIC_IPV6 env0 = None"
  by (simp_all add: env0_def)





lemma set_sort_records: "set (sort_records records) = set records"
  by (simp add: sort_records_def)




lemma policy_for_TXT: "r \<in> set (policy_for records q) \<Longrightarrow> fst (snd r) = ''TXT''"
  by (auto simp: policy_for_def strict_spf_sel strict_dmarc_sel split: if_splits)




lemma has_rec_Cons:
  "has_rec (r # records) q t p \<longleftrightarrow>
     (fst r = q \<and> fst (snd r) = t \<and>
        (case p of None \<Rightarrow> True | Some x \<Rightarrow> startswith (fst (snd (snd r))) x)) \<or>
     has_rec records q t p"
  by (simp add: has_rec_def)

lemma has_rec_sort_records: "has_rec (sort_records records) q t p = has_rec records q t p"
  by (rule has_rec_cong_set) (rule set_sort_records)

lemma filter_sort_records: "filter P (sort_records records) = sort_records (filter P records)"
  by (simp add: sort_records_def filter_sort)

lemma sort_records_single: "sort_records [r] = [r]"
  by (simp add: sort_records_def)

lemmas zone_eval =
  build_zone_leaf zone_head_def zone_tail_def ext0_sel env0_sel truthy_def
  defaults_def strip_def isspace_def all_resolvable_qnames_def
  startswith_def dmarc_qname_def strict_spf_def strict_dmarc_def Let_def
  has_rec_Nil has_rec_Cons has_rec_sort_records filter_sort_records sort_records_single
  build_tlsa_record_def build_sshfp_records_def sshfp_of_key_def
  algorithm_number_def entry_values_def yield_value_def




lemma has_rec_apexA: "has_rec records None ''A'' None \<longleftrightarrow> filter apexA records \<noteq> []"
  by (auto simp: has_rec_iff apexA_def filter_empty_conv)

lemma zone_head_not_primary:
  "domain \<noteq> PRIMARY_HOSTNAME env \<Longrightarrow>
     \<exists>records. zone_head domain env ext z = Inr records \<and> filter apexA records = []"
  by (simp add: zone_head_def Let_def apexA_def)

lemma requalify_not_apex: "fst (requalify q r) \<noteq> None"
  by (simp add: requalify_def split: option.splits)

lemma add_subzones_apexA:
  "add_subzones domain records subs = Inr records' \<Longrightarrow>
     filter apexA records' = filter apexA records"
proof (induction subs arbitrary: records)
  case Nil
  then show ?case by simp
next
  case (Cons sub subs)
  from Cons.prems obtain subzone where s: "snd sub = Inr subzone"
    and r: "add_subzones domain
        (records @ map (requalify (take (length (fst sub) - length (''.'' @ domain)) (fst sub))) subzone)
        subs = Inr records'"
    by (auto split: sum.splits)
  have "filter apexA (map (requalify q) subzone) = []" for q
    by (auto simp: filter_empty_conv apexA_def requalify_def split: option.splits)
  with Cons.IH [OF r] show ?case by simp
qed

lemma yield_value_rtype: "c \<in> set (yield_value env q rv) \<Longrightarrow> fst c = q \<and> fst (snd c) = fst rv"
  by (auto simp: yield_value_def split: if_splits option.splits)

lemma yield_value_A: "yield_value env q (''A'', v) = [(q, ''A'', resolved env v)]"
  by (simp add: yield_value_def resolved_def)

lemma mapping_first_A:
  "map_of m ''A'' = Some v \<Longrightarrow>
     \<exists>pre post. concat (map (yield_value env q) m) = pre @ (q, ''A'', resolved env v) # post \<and>
       (\<forall>c\<in>set pre. fst (snd c) \<noteq> ''A'')"
proof (induction m)
  case Nil
  then show ?case by simp
next
  case (Cons rv m)
  show ?case
  proof (cases "fst rv = ''A''")
    case True
    with Cons.prems have "rv = (''A'', v)" by (cases rv) simp
    then have "concat (map (yield_value env q) (rv # m)) =
        [] @ (q, ''A'', resolved env v) # concat (map (yield_value env q) m)"
      by (simp add: yield_value_A)
    then show ?thesis by (metis empty_iff list.set(1))
  next
    case False
    with Cons.prems have "map_of m ''A'' = Some v" by (cases rv) (simp split: if_splits)
    from Cons.IH [OF this] obtain pre post
      where c: "concat (map (yield_value env q) m) = pre @ (q, ''A'', resolved env v) # post"
        and p: "\<forall>c\<in>set pre. fst (snd c) \<noteq> ''A''"
      by blast
    have "concat (map (yield_value env q) (rv # m)) =
        (yield_value env q rv @ pre) @ (q, ''A'', resolved env v) # post"
      using c by simp
    moreover have "\<forall>c\<in>set (yield_value env q rv @ pre). fst (snd c) \<noteq> ''A''"
      using p False by (auto dest: yield_value_rtype)
    ultimately show ?thesis by blast
  qed
qed

lemma entry_first_A:
  assumes "e = Short v \<or> (\<exists>m. e = Mapping m \<and> map_of m ''A'' = Some v)"
    and "entry_values env e = Inr vals"
  shows "\<exists>pre post. concat (map (yield_value env q) vals) = pre @ (q, ''A'', resolved env v) # post \<and>
       (\<forall>c\<in>set pre. fst (snd c) \<noteq> ''A'')"
proof -
  from assms(1) consider "e = Short v" | m where "e = Mapping m" "map_of m ''A'' = Some v"
    by blast
  then show ?thesis
  proof cases
    case 1
    with assms(2) obtain rest where "vals = (''A'', v) # rest"
      by (auto simp: entry_values_def)
    then have "concat (map (yield_value env q) vals) =
        [] @ (q, ''A'', resolved env v) # concat (map (yield_value env q) rest)"
      by (simp add: yield_value_A)
    then show ?thesis by (metis empty_iff list.set(1))
  next
    case 2
    with assms(2) have "vals = m" by (simp add: entry_values_def)
    with mapping_first_A [OF 2(2)] show ?thesis by simp
  qed
qed

lemma get_custom_records_first_A:
  assumes "map_of ar domain = Some e"
    and "e = Short v \<or> (\<exists>m. e = Mapping m \<and> map_of m ''A'' = Some v)"
    and "get_custom_records domain ar env = Inr custom"
  shows "\<exists>pre post. custom = pre @ (None, ''A'', resolved env v) # post \<and>
       (\<forall>c\<in>set pre. \<not> (fst c = None \<and> fst (snd c) = ''A''))"
  using assms(1,3)
proof (induction ar arbitrary: custom)
  case Nil
  then show ?case by simp
next
  case (Cons entry ar)
  show ?case
  proof (cases "fst entry = domain")
    case True
    with Cons.prems(1) have e: "snd entry = e" by (cases entry) simp
    from Cons.prems(2) True e obtain vals later
      where v: "entry_values env e = Inr vals"
        and c: "custom = concat (map (yield_value env None) vals) @ later"
      by (auto simp: Let_def split: sum.splits)
    from entry_first_A [OF assms(2) v, of None] obtain pre post
      where "concat (map (yield_value env None) vals) = pre @ (None, ''A'', resolved env v) # post"
        and "\<forall>c\<in>set pre. fst (snd c) \<noteq> ''A''"
      by blast
    with c have "custom = pre @ (None, ''A'', resolved env v) # (post @ later)"
      and "\<forall>c\<in>set pre. \<not> (fst c = None \<and> fst (snd c) = ''A'')"
      by auto
    then show ?thesis by blast
  next
    case False
    note ne = this
    with Cons.prems(1) have m: "map_of ar domain = Some e" by (cases entry) (simp split: if_splits)
    show ?thesis
    proof (cases "endswith (fst entry) (''.'' @ domain)")
      case False
      with ne Cons.prems(2) have "get_custom_records domain ar env = Inr custom"
        by simp
      from Cons.IH [OF m this] show ?thesis .
    next
      case True
      define q where "q = Some (take (length (fst entry) - length (''.'' @ domain)) (fst entry))"
      from True ne Cons.prems(2) obtain vals later
        where l: "get_custom_records domain ar env = Inr later"
          and c: "custom = concat (map (yield_value env q) vals) @ later"
        by (auto simp: Let_def q_def split: sum.splits)
      from Cons.IH [OF m l] obtain pre post
        where "later = pre @ (None, ''A'', resolved env v) # post"
          and "\<forall>c\<in>set pre. \<not> (fst c = None \<and> fst (snd c) = ''A'')"
        by blast
      moreover have "\<forall>c\<in>set (concat (map (yield_value env q) vals)). fst c \<noteq> None"
        by (auto simp: q_def dest: yield_value_rtype)
      ultimately have "custom = (concat (map (yield_value env q) vals) @ pre) @
            (None, ''A'', resolved env v) # post"
        and "\<forall>c\<in>set (concat (map (yield_value env q) vals) @ pre).
            \<not> (fst c = None \<and> fst (snd c) = ''A'')"
        using c by auto
      then show ?thesis by blast
    qed
  qed
qed

lemma add_custom_records_append:
  "add_custom_records records (xs @ ys) = add_custom_records (add_custom_records records xs) ys"
  by (induction xs arbitrary: records) simp_all

lemma add_custom_records_apexA_keep:
  "has_rec records None ''A'' None \<or> (\<forall>c\<in>set xs. \<not> (fst c = None \<and> fst (snd c) = ''A'')) \<Longrightarrow>
     filter apexA (add_custom_records records xs) = filter apexA records"
proof (induction xs arbitrary: records)
  case Nil
  then show ?case by simp
next
  case (Cons c xs)
  let ?r = "if has_rec records (fst c) (fst (snd c)) None then records
            else records @ [(fst c, fst (snd c), snd (snd c), Some ''(Set by user.)'')]"
  have keep: "filter apexA ?r = filter apexA records"
    using Cons.prems by (auto simp: apexA_def)
  have "has_rec ?r None ''A'' None \<or> (\<forall>c\<in>set xs. \<not> (fst c = None \<and> fst (snd c) = ''A''))"
    using Cons.prems by (auto simp: has_rec_append)
  from Cons.IH [OF this] keep show ?case by simp
qed

lemma add_custom_records_first_A:
  assumes "filter apexA records = []"
    and "custom = pre @ (None, ''A'', v) # post"
    and "\<forall>c\<in>set pre. \<not> (fst c = None \<and> fst (snd c) = ''A'')"
  shows "filter apexA (add_custom_records records custom) = [(None, ''A'', v, Some ''(Set by user.)'')]"
proof -
  let ?r1 = "add_custom_records records pre"
  have 1: "filter apexA ?r1 = []"
    using add_custom_records_apexA_keep [of records pre] assms(1,3) by simp
  then have n: "\<not> has_rec ?r1 None ''A'' None" by (simp add: has_rec_apexA)
  let ?r2 = "?r1 @ [(None, ''A'', v, Some ''(Set by user.)'')]"
  have 2: "filter apexA ?r2 = [(None, ''A'', v, Some ''(Set by user.)'')]"
    using 1 by (simp add: apexA_def)
  then have h: "has_rec ?r2 None ''A'' None" by (simp add: has_rec_apexA)
  have "add_custom_records records custom = add_custom_records ?r2 post"
    unfolding assms(2) add_custom_records_append using n by simp
  with add_custom_records_apexA_keep [of ?r2 post] h 2 show ?thesis by simp
qed

lemma add_defaults_apexA_keep:
  "has_rec records None ''A'' None \<Longrightarrow>
     filter apexA (add_defaults z records ds) = filter apexA records"
proof (induction ds arbitrary: records)
  case Nil
  then show ?case by simp
next
  case (Cons d ds)
  obtain q t v e where d: "d = (q, t, v, e)" by (cases d)
  let ?r = "if v = None \<or> strip (the v) = [] then records
          else if \<not> z \<and> q = Some ''www'' then records
          else if \<not> has_rec records q t None then records @ [(q, t, the v, Some e)]
          else records"
  have keep: "filter apexA ?r = filter apexA records"
    using Cons.prems by (auto simp: apexA_def)
  have "has_rec ?r None ''A'' None" using Cons.prems by (auto simp: has_rec_append)
  from Cons.IH [OF this] keep show ?case by (simp add: d)
qed

lemma add_strict_policy_apexA:
  "filter apexA (add_strict_policy records (all_resolvable_qnames records)) = filter apexA records"
proof -
  have "filter apexA (concat (map (policy_for records) qs)) = []" for qs
    by (auto simp: filter_empty_conv apexA_def dest: policy_for_TXT)
  then show ?thesis
    by (simp add: add_strict_policy_additions [OF distinct_all_resolvable_qnames])
qed

lemma sort_records_filter_single:
  "filter P records = [r] \<Longrightarrow> filter P (sort_records records) = [r]"
  by (simp add: sort_records_def filter_sort)

lemma zone_tail_apexA:
  assumes "filter apexA records = []"
    and "map_of ar domain = Some e"
    and "e = Short v \<or> (\<exists>m. e = Mapping m \<and> map_of m ''A'' = Some v)"
    and "zone_tail domain ar env ext z records = Inr out"
  shows "filter apexA out = [(None, ''A'', resolved env v, Some ''(Set by user.)'')]"
proof -
  from assms(4) obtain custom g1 g2 g3 dk dm where
    c: "get_custom_records domain ar env = Inr custom"
    and out: "out = sort_records
       (add_strict_policy
          (add_defaults z (add_custom_records records custom) (defaults domain env) @
             [(Some g1, ''TXT'', g2 @ g3, dk), (Some ''_dmarc'', ''TXT'', ''v=DMARC1; p=quarantine'', dm)])
          (all_resolvable_qnames
             (add_defaults z (add_custom_records records custom) (defaults domain env) @
             [(Some g1, ''TXT'', g2 @ g3, dk), (Some ''_dmarc'', ''TXT'', ''v=DMARC1; p=quarantine'', dm)])))"
    unfolding zone_tail_def Let_def
    by (auto split: sum.splits dkim_read.splits)
  let ?u = "(None, ''A'', resolved env v, Some ''(Set by user.)'')"
  from get_custom_records_first_A [OF assms(2,3) c] obtain pre post
    where "custom = pre @ (None, ''A'', resolved env v) # post"
      and "\<forall>c\<in>set pre. \<not> (fst c = None \<and> fst (snd c) = ''A'')"
    by blast
  from add_custom_records_first_A [OF assms(1) this]
  have 1: "filter apexA (add_custom_records records custom) = [?u]" .
  then have "has_rec (add_custom_records records custom) None ''A'' None"
    by (simp add: has_rec_apexA)
  from add_defaults_apexA_keep [OF this] 1
  have 2: "filter apexA (add_defaults z (add_custom_records records custom) (defaults domain env)) = [?u]"
    by simp
  show ?thesis
    unfolding out
    by (rule sort_records_filter_single) (simp add: add_strict_policy_apexA 2, simp add: apexA_def)
qed

text \<open>
  C6, as stated, fails for the zone of the box itself: the A record of
  \<^verbatim>\<open>PRIMARY_HOSTNAME\<close> is emitted first (lines 154 to 158), so a custom A record for
  that name is skipped and the apex A record is the one of the box.
\<close>

theorem build_zone_apex_override_counterexample:
  "\<exists>out. build_zone ''box.example.com'' [] [(''box.example.com'', Short ''198.51.100.7'')]
       env0 ext0 True = Inr out \<and>
     filter (\<lambda>r. fst r = None \<and> fst (snd r) = ''A'') out =
       [(None, ''A'', ''203.0.113.1'', Some ''Required. Sets the IP address of the box.'')]"
  by (simp add: zone_eval)


text \<open>
  C6, amended. For a domain other than \<^verbatim>\<open>PRIMARY_HOSTNAME\<close> whose custom records
  hold an A value \<open>v\<close> for the domain itself (in short form, or under the key A of the
  mapping form), the list that \<^verbatim>\<open>build_zone\<close> returns has exactly one A record at the
  apex: its value is \<open>v\<close>, or the address of the box when \<open>v\<close> is \<^verbatim>\<open>local\<close>, and it is
  marked as set by the user, so the default apex A record is absent.
\<close>

theorem build_zone_apex_override:
  assumes "domain \<noteq> PRIMARY_HOSTNAME env"
    and "map_of additional_records domain = Some (Short v) \<or>
         (\<exists>m. map_of additional_records domain = Some (Mapping m) \<and> map_of m ''A'' = Some v)"
    and "build_zone domain all_domains additional_records env ext is_zone = Inr out"
  shows "filter (\<lambda>r. fst r = None \<and> fst (snd r) = ''A'') out =
           [(None, ''A'', if v = ''local'' then PUBLIC_IP env else v, Some ''(Set by user.)'')]"
proof -
  from assms(2) obtain e where e: "map_of additional_records domain = Some e"
    and ev: "e = Short v \<or> (\<exists>m. e = Mapping m \<and> map_of m ''A'' = Some v)"
    by auto
  from zone_head_not_primary [OF assms(1)] obtain hs
    where hs: "zone_head domain env ext is_zone = Inr hs" "filter apexA hs = []"
    by blast
  from assms(3) hs(1) obtain records subs where
    s: "add_subzones domain hs subs = Inr records"
    and t: "zone_tail domain additional_records env ext is_zone records = Inr out"
    by (subst (asm) build_zone.simps) (auto split: sum.splits)
  from add_subzones_apexA [OF s] hs(2) have "filter apexA records = []" by simp
  from zone_tail_apexA [OF this e ev t] show ?thesis
    by (simp add: apexA_def [abs_def] resolved_def)
qed

theorem build_zone_apex_override_witness:
  "''example.org'' \<noteq> PRIMARY_HOSTNAME env0 \<and>
   map_of [(''example.org'', Short ''198.51.100.7'')] ''example.org'' = Some (Short ''198.51.100.7'') \<and>
   (\<exists>out. build_zone ''example.org'' [] [(''example.org'', Short ''198.51.100.7'')] env0 ext0 True = Inr out \<and>
      filter (\<lambda>r. fst r = None \<and> fst (snd r) = ''A'') out =
        [(None, ''A'', ''198.51.100.7'', Some ''(Set by user.)'')])"
proof -
  have ne: "''example.org'' \<noteq> PRIMARY_HOSTNAME env0" by (simp add: env0_sel)
  have m: "map_of [(''example.org'', Short ''198.51.100.7'')] ''example.org'' = Some (Short ''198.51.100.7'') \<or>
      (\<exists>m. map_of [(''example.org'', Short ''198.51.100.7'')] ''example.org'' = Some (Mapping m) \<and>
           map_of m ''A'' = Some ''198.51.100.7'')"
    by simp
  have "\<exists>out. build_zone ''example.org'' [] [(''example.org'', Short ''198.51.100.7'')] env0 ext0 True = Inr out"
    by (simp add: zone_eval)
  then obtain out where
    out: "build_zone ''example.org'' [] [(''example.org'', Short ''198.51.100.7'')] env0 ext0 True = Inr out"
    by blast
  from build_zone_apex_override [OF ne m out]
  have "filter (\<lambda>r. fst r = None \<and> fst (snd r) = ''A'') out =
        [(None, ''A'', ''198.51.100.7'', Some ''(Set by user.)'')]"
    by simp
  with ne out show ?thesis by auto
qed

subsection \<open>Subdomains inside a zone\<close>

lemma builtin_requalify: "builtin env (requalify q r) = builtin env r"
  by (simp add: builtin_def requalify_def)

lemma has_rec_mono_set: "set xs \<subseteq> set ys \<Longrightarrow> has_rec xs q t p \<Longrightarrow> has_rec ys q t p"
  by (auto simp: has_rec_iff)

lemma zone_head_builtin:
  assumes "zone_head d env ext z = Inr hs" and "r \<in> set hs"
  shows "builtin env r"
proof (cases "d = PRIMARY_HOSTNAME env")
  case False
  with assms show ?thesis
    by (auto simp: zone_head_def Let_def builtin_def split: if_splits)
next
  case True
  with assms obtain tlsa sshfp where
    "r \<in> set ((if z then [(None, ''NS'', ''ns1.'' @ PRIMARY_HOSTNAME env @ ''.'', None),
                   (None, ''NS'', ''ns2.'' @ PRIMARY_HOSTNAME env @ ''.'', None)] else []) @
       [(Some ''ns1'', ''A'', PUBLIC_IP env, None), (Some ''ns2'', ''A'', PUBLIC_IP env, None)] @
       (if truthy (PUBLIC_IPV6 env)
        then [(Some ''ns1'', ''AAAA'', the (PUBLIC_IPV6 env), None),
              (Some ''ns2'', ''AAAA'', the (PUBLIC_IPV6 env), None)]
        else []) @
       [(None, ''A'', PUBLIC_IP env, Some ''Required. Sets the IP address of the box.'')] @
       (if truthy (PUBLIC_IPV6 env)
        then [(None, ''AAAA'', the (PUBLIC_IPV6 env), Some ''Required. Sets the IPv6 address of the box.'')]
        else []) @
       [(Some ''_25._tcp'', ''TLSA'', tlsa,
           Some ''Recommended when DNSSEC is enabled. Advertises to mail servers connecting to the box that mandatory encryption should be used.'')] @
       map (\<lambda>value. (None, ''SSHFP'', value,
              Some ''Optional. Provides an out-of-band method for verifying an SSH key before connecting. Use 'VerifyHostKeyDNS yes' (or 'VerifyHostKeyDNS ask') when connecting with ssh.''))
         sshfp @
       [(None, ''MX'', ''10 '' @ PRIMARY_HOSTNAME env @ ''.'',
                Some (''Required. Specifies the hostname (and priority) of the machine that handles @'' @ d @ '' mail.'')),
             (None, ''TXT'', ''v=spf1 mx -all'',
                Some (''Recommended. Specifies that only the box is permitted to send @'' @ d @ '' mail.''))])"
    unfolding zone_head_def Let_def by (auto split: sum.splits)
  then show ?thesis
    by (auto simp: builtin_def truthy_def split: if_splits option.splits)
qed

subsubsection \<open>Custom records\<close>

lemma set_add_custom_records_mono: "set R \<subseteq> set (add_custom_records R cs)"
proof (induction cs arbitrary: R)
  case Nil
  then show ?case by simp
next
  case (Cons c cs)
  let ?r = "if has_rec R (fst c) (fst (snd c)) None then R
            else R @ [(fst c, fst (snd c), snd (snd c), Some ''(Set by user.)'')]"
  have "set R \<subseteq> set ?r" by auto
  with Cons.IH [of ?r] show ?case by simp
qed

lemma add_custom_records_new:
  "r \<in> set (add_custom_records R cs) \<Longrightarrow>
     r \<in> set R \<or>
     (\<not> has_rec R (fst r) (fst (snd r)) None \<and> snd (snd (snd r)) = Some ''(Set by user.)'')"
proof (induction cs arbitrary: R)
  case Nil
  then show ?case by simp
next
  case (Cons c cs)
  let ?r = "if has_rec R (fst c) (fst (snd c)) None then R
            else R @ [(fst c, fst (snd c), snd (snd c), Some ''(Set by user.)'')]"
  from Cons.prems have "r \<in> set (add_custom_records ?r cs)" by simp
  from Cons.IH [OF this] show ?case
    by (auto simp: has_rec_append split: if_splits)
qed

subsubsection \<open>Defaults\<close>

lemma set_add_defaults_mono: "set R \<subseteq> set (add_defaults z R ds)"
proof (induction ds arbitrary: R)
  case Nil
  then show ?case by simp
next
  case (Cons d ds)
  obtain q t v e where d: "d = (q, t, v, e)" by (cases d)
  let ?r = "if v = None \<or> strip (the v) = [] then R
          else if \<not> z \<and> q = Some ''www'' then R
          else if \<not> has_rec R q t None then R @ [(q, t, the v, Some e)]
          else R"
  have "set R \<subseteq> set ?r" by auto
  with Cons.IH [of ?r] show ?case by (simp add: d)
qed

lemma add_defaults_new:
  "r \<in> set (add_defaults z R ds) \<Longrightarrow>
     r \<in> set R \<or>
     (\<not> has_rec R (fst r) (fst (snd r)) None \<and>
      (\<exists>q t v e. (q, t, Some v, e) \<in> set ds \<and> r = (q, t, v, Some e)))"
proof (induction ds arbitrary: R)
  case Nil
  then show ?case by simp
next
  case (Cons d ds)
  obtain q t v e where d: "d = (q, t, v, e)" by (cases d)
  let ?r = "if v = None \<or> strip (the v) = [] then R
          else if \<not> z \<and> q = Some ''www'' then R
          else if \<not> has_rec R q t None then R @ [(q, t, the v, Some e)]
          else R"
  from Cons.prems have "r \<in> set (add_defaults z ?r ds)" by (simp add: d)
  from Cons.IH [OF this] show ?case
    by (auto simp: d has_rec_append split: if_splits)
qed

lemma add_defaults_covers:
  "(q, t, Some v, e) \<in> set ds \<Longrightarrow> strip v \<noteq> [] \<Longrightarrow> z \<or> q \<noteq> Some ''www'' \<Longrightarrow>
     has_rec (add_defaults z R ds) q t None"
proof (induction ds arbitrary: R)
  case Nil
  then show ?case by simp
next
  case (Cons d ds)
  obtain q' t' v' e' where d: "d = (q', t', v', e')" by (cases d)
  let ?r = "if v' = None \<or> strip (the v') = [] then R
          else if \<not> z \<and> q' = Some ''www'' then R
          else if \<not> has_rec R q' t' None then R @ [(q', t', the v', Some e')]
          else R"
  have step: "add_defaults z R (d # ds) = add_defaults z ?r ds" by (simp add: d)
  show ?case
  proof (cases "d = (q, t, Some v, e)")
    case True
    with d Cons.prems(2,3) have "has_rec ?r q t None"
      by (auto simp: has_rec_append has_rec_Cons)
    then have "has_rec (add_defaults z ?r ds) q t None"
      by (rule has_rec_mono_set [OF set_add_defaults_mono])
    then show ?thesis unfolding step .
  next
    case False
    with Cons.prems(1) have "(q, t, Some v, e) \<in> set ds" by simp
    from Cons.IH [OF this Cons.prems(2,3)] show ?thesis unfolding step .
  qed
qed

lemma defaults_builtin:
  "(q, t, Some v, e) \<in> set (defaults d env) \<Longrightarrow> builtin env (q, t, v, Some e)"
  by (auto simp: defaults_def builtin_def)

subsubsection \<open>The tail of the zone\<close>

lemma policy_for_not_user:
  "r \<in> set (policy_for records q) \<Longrightarrow> snd (snd (snd r)) \<noteq> Some ''(Set by user.)''"
  by (auto simp: policy_for_def strict_spf_def strict_dmarc_def split: if_splits)

lemma zone_tail_set:
  assumes "zone_tail d ar env ext z R = Inr out"
  shows "\<exists>custom extra. get_custom_records d ar env = Inr custom \<and>
     set out = set (add_defaults z (add_custom_records R custom) (defaults d env)) \<union> set extra \<and>
     (\<forall>r\<in>set extra. fst (snd r) = ''TXT'' \<and> snd (snd (snd r)) \<noteq> Some ''(Set by user.)'')"
proof -
  define dk where "dk = Some (''Recommended. Provides a way for recipients to verify that this machine sent @'' @ d @ '' mail.'')"
  define dm where "dm = Some (''Optional. Specifies that mail that does not originate from the box but claims to be from @'' @ d @ '' is suspect and should be quarantined by the recipient's mail system.'')"
  have dk: "dk \<noteq> Some ''(Set by user.)''" and dm: "dm \<noteq> Some ''(Set by user.)''"
    by (simp_all add: dk_def dm_def)
  from assms obtain custom where c: "get_custom_records d ar env = Inr custom"
    unfolding zone_tail_def by (auto split: sum.splits)
  from assms c obtain g1 g2 g3 where m: "opendkim_record ext = Match g1 g2 g3"
    unfolding zone_tail_def Let_def by (auto split: dkim_read.splits)
  from assms have out: "out = sort_records
       (add_strict_policy
          (add_defaults z (add_custom_records R custom) (defaults d env) @
             [(Some g1, ''TXT'', g2 @ g3, dk), (Some ''_dmarc'', ''TXT'', ''v=DMARC1; p=quarantine'', dm)])
          (all_resolvable_qnames
             (add_defaults z (add_custom_records R custom) (defaults d env) @
             [(Some g1, ''TXT'', g2 @ g3, dk), (Some ''_dmarc'', ''TXT'', ''v=DMARC1; p=quarantine'', dm)])))"
    unfolding zone_tail_def Let_def dk_def dm_def by (simp add: c m)
  let ?R2 = "add_defaults z (add_custom_records R custom) (defaults d env)"
  let ?R3 = "?R2 @ [(Some g1, ''TXT'', g2 @ g3, dk), (Some ''_dmarc'', ''TXT'', ''v=DMARC1; p=quarantine'', dm)]"
  let ?extra = "[(Some g1, ''TXT'', g2 @ g3, dk), (Some ''_dmarc'', ''TXT'', ''v=DMARC1; p=quarantine'', dm)] @
      concat (map (policy_for ?R3) (all_resolvable_qnames ?R3))"
  have "out = sort_records (?R2 @ ?extra)"
    unfolding out add_strict_policy_additions [OF distinct_all_resolvable_qnames] by simp
  then have 1: "set out = set ?R2 \<union> set ?extra"
    by (simp only: set_sort_records set_append)
  have 2: "\<forall>r\<in>set ?extra. fst (snd r) = ''TXT'' \<and> snd (snd (snd r)) \<noteq> Some ''(Set by user.)''"
    using dk dm by (auto dest: policy_for_TXT policy_for_not_user)
  from c 1 2 show ?thesis by blast
qed

lemma zone_tail_custom_mono:
  assumes "zone_tail d ar env ext z R = Inr out"
  shows "\<exists>custom. get_custom_records d ar env = Inr custom \<and>
     set (add_custom_records R custom) \<subseteq> set out"
proof -
  from zone_tail_set [OF assms] obtain custom extra where
    "get_custom_records d ar env = Inr custom"
    and "set out = set (add_defaults z (add_custom_records R custom) (defaults d env)) \<union> set extra"
    by blast
  moreover have "set (add_custom_records R custom) \<subseteq>
      set (add_defaults z (add_custom_records R custom) (defaults d env))"
    by (rule set_add_defaults_mono)
  ultimately show ?thesis by blast
qed

lemma zone_tail_mono:
  assumes "zone_tail d ar env ext z R = Inr out"
  shows "set R \<subseteq> set out"
  using zone_tail_custom_mono [OF assms] set_add_custom_records_mono [of R] by blast

lemma zone_tail_shadow:
  assumes "zone_tail d ar env ext z R = Inr out"
    and "has_rec R (fst r) (fst (snd r)) None" and "fst (snd r) \<noteq> ''TXT''" and "r \<in> set out"
  shows "r \<in> set R"
proof -
  from zone_tail_set [OF assms(1)] obtain custom extra where
    so: "set out = set (add_defaults z (add_custom_records R custom) (defaults d env)) \<union> set extra"
    and ex: "\<forall>r\<in>set extra. fst (snd r) = ''TXT'' \<and> snd (snd (snd r)) \<noteq> Some ''(Set by user.)''"
    by blast
  from assms(3,4) so ex have "r \<in> set (add_defaults z (add_custom_records R custom) (defaults d env))"
    by auto
  moreover have "has_rec (add_custom_records R custom) (fst r) (fst (snd r)) None"
    by (rule has_rec_mono_set [OF set_add_custom_records_mono assms(2)])
  ultimately have "r \<in> set (add_custom_records R custom)"
    by (auto dest: add_defaults_new)
  with assms(2) show ?thesis by (auto dest: add_custom_records_new)
qed

lemma zone_tail_returns:
  "get_custom_records domain ar env = Inr c \<Longrightarrow> opendkim_record ext = Match a b d \<Longrightarrow>
     \<exists>out. zone_tail domain ar env ext z records = Inr out"
  by (simp add: zone_tail_def Let_def)

subsubsection \<open>A zone without subdomains and custom records\<close>

lemma build_zone_leaf_parts:
  assumes "build_zone s [] [] env ext z = Inr sub"
  shows "\<exists>hs extra. zone_head s env ext z = Inr hs \<and>
     set sub = set (add_defaults z hs (defaults s env)) \<union> set extra \<and>
     (\<forall>r\<in>set extra. fst (snd r) = ''TXT'' \<and> snd (snd (snd r)) \<noteq> Some ''(Set by user.)'')"
proof -
  from assms obtain hs where hs: "zone_head s env ext z = Inr hs"
    and t: "zone_tail s [] env ext z hs = Inr sub"
    by (auto simp: build_zone_leaf split: sum.splits)
  from zone_tail_set [OF t] hs show ?thesis by auto
qed

lemma build_zone_leaf_builtin:
  assumes "build_zone s [] [] env ext z = Inr sub" and "r \<in> set sub"
  shows "builtin env r"
proof -
  from build_zone_leaf_parts [OF assms(1)] obtain hs extra where
    hs: "zone_head s env ext z = Inr hs"
    and so: "set sub = set (add_defaults z hs (defaults s env)) \<union> set extra"
    and ex: "\<forall>r\<in>set extra. fst (snd r) = ''TXT'' \<and> snd (snd (snd r)) \<noteq> Some ''(Set by user.)''"
    by blast
  from assms(2) so consider "r \<in> set extra" | "r \<in> set (add_defaults z hs (defaults s env))"
    by auto
  then show ?thesis
  proof cases
    case 1
    with ex show ?thesis by (auto simp: builtin_def)
  next
    case 2
    from add_defaults_new [OF 2] show ?thesis
      by (auto dest: zone_head_builtin [OF hs] defaults_builtin)
  qed
qed

lemma build_zone_leaf_has_A:
  assumes "build_zone s [] [] env ext z = Inr sub" and "strip (PUBLIC_IP env) \<noteq> []"
  shows "has_rec sub None ''A'' None"
proof -
  from build_zone_leaf_parts [OF assms(1)] obtain hs extra where
    so: "set sub = set (add_defaults z hs (defaults s env)) \<union> set extra"
    by blast
  have "\<exists>e. (None, ''A'', Some (PUBLIC_IP env), e) \<in> set (defaults s env)"
    by (simp add: defaults_def)
  then obtain e where "(None, ''A'', Some (PUBLIC_IP env), e) \<in> set (defaults s env)" ..
  from add_defaults_covers [OF this assms(2), of z hs]
  have "has_rec (add_defaults z hs (defaults s env)) None ''A'' None" by simp
  moreover from so have "set (add_defaults z hs (defaults s env)) \<subseteq> set sub" by simp
  ultimately show ?thesis by (rule has_rec_mono_set [rotated])
qed

lemma build_zone_leaf_has_AAAA:
  assumes "build_zone s [] [] env ext z = Inr sub"
    and "PUBLIC_IPV6 env = Some v6" and "strip v6 \<noteq> []"
  shows "has_rec sub None ''AAAA'' None"
proof -
  from build_zone_leaf_parts [OF assms(1)] obtain hs extra where
    so: "set sub = set (add_defaults z hs (defaults s env)) \<union> set extra"
    by blast
  have "\<exists>e. (None, ''AAAA'', Some v6, e) \<in> set (defaults s env)"
    by (simp add: defaults_def assms(2))
  then obtain e where "(None, ''AAAA'', Some v6, e) \<in> set (defaults s env)" ..
  from add_defaults_covers [OF this assms(3), of z hs]
  have "has_rec (add_defaults z hs (defaults s env)) None ''AAAA'' None" by simp
  moreover from so have "set (add_defaults z hs (defaults s env)) \<subseteq> set sub" by simp
  ultimately show ?thesis by (rule has_rec_mono_set [rotated])
qed

subsubsection \<open>Subzones\<close>

lemma add_subzones_set:
  "add_subzones domain R subs = Inr R' \<Longrightarrow>
     set R' = set R \<union>
       (\<Union>sub\<in>set subs. requalify (subdomain_qname domain (fst sub)) ` set (projr (snd sub)))"
proof (induction subs arbitrary: R)
  case Nil
  then show ?case by simp
next
  case (Cons sub subs)
  from Cons.prems obtain subzone where s: "snd sub = Inr subzone"
    and r: "add_subzones domain
        (R @ map (requalify (take (length (fst sub) - length (''.'' @ domain)) (fst sub))) subzone)
        subs = Inr R'"
    by (auto split: sum.splits)
  from Cons.IH [OF r] show ?case
    by (simp add: s subdomain_qname_def Un_assoc)
qed

lemma add_subzones_Inr:
  "add_subzones domain R subs = Inr R' \<Longrightarrow> sub \<in> set subs \<Longrightarrow> \<exists>zn. snd sub = Inr zn"
proof (induction subs arbitrary: R)
  case Nil
  then show ?case by simp
next
  case (Cons x subs)
  from Cons.prems(1) obtain subzone where s: "snd x = Inr subzone"
    and r: "add_subzones domain
        (R @ map (requalify (take (length (fst x) - length (''.'' @ domain)) (fst x))) subzone)
        subs = Inr R'"
    by (auto split: sum.splits)
  from Cons.prems(2) Cons.IH [OF r] s show ?case by auto
qed

lemma add_subzones_returns:
  "\<forall>sub\<in>set subs. \<exists>zn. snd sub = Inr zn \<Longrightarrow> \<exists>R'. add_subzones domain R subs = Inr R'"
proof (induction subs arbitrary: R)
  case Nil
  then show ?case by simp
next
  case (Cons x subs)
  then obtain zn where "snd x = Inr zn" by auto
  with Cons show ?case by simp
qed

lemma build_zone_parts:
  assumes "build_zone domain all_domains ar env ext z = Inr out"
  shows "\<exists>hs R'. zone_head domain env ext z = Inr hs \<and>
     add_subzones domain hs
       (map (\<lambda>subdomain. (subdomain, build_zone subdomain [] [] env ext False))
          (filter (\<lambda>d. endswith d (''.'' @ domain)) all_domains)) = Inr R' \<and>
     zone_tail domain ar env ext z R' = Inr out"
  using assms by (subst (asm) build_zone.simps) (auto split: sum.splits)

lemma build_zone_returns:
  assumes "PRIMARY_HOSTNAME env \<notin> set (domain # all_domains)"
    and "opendkim_record ext = Match g1 g2 g3"
    and "get_custom_records domain ar env = Inr custom"
  shows "\<exists>out. build_zone domain all_domains ar env ext z = Inr out"
proof -
  have leaf: "\<exists>sub. build_zone s [] [] env ext False = Inr sub" if "s \<noteq> PRIMARY_HOSTNAME env" for s
  proof -
    from that obtain hs where hs: "zone_head s env ext False = Inr hs"
      by (auto simp: zone_head_def Let_def)
    have "get_custom_records s [] env = Inr []" by simp
    from zone_tail_returns [OF this assms(2), of False hs] hs show ?thesis
      by (simp add: build_zone_leaf)
  qed
  from assms(1) obtain hs where hs: "zone_head domain env ext z = Inr hs"
    by (auto simp: zone_head_def Let_def)
  let ?subs = "map (\<lambda>subdomain. (subdomain, build_zone subdomain [] [] env ext False))
          (filter (\<lambda>d. endswith d (''.'' @ domain)) all_domains)"
  have "\<forall>sub\<in>set ?subs. \<exists>zn. snd sub = Inr zn"
    using assms(1) by (auto intro!: leaf)
  from add_subzones_returns [OF this, of domain hs] obtain R'
    where R': "add_subzones domain hs ?subs = Inr R'" ..
  from zone_tail_returns [OF assms(3,2), of z R'] obtain out
    where "zone_tail domain ar env ext z R' = Inr out" ..
  with hs R' have "build_zone domain all_domains ar env ext z = Inr out"
    by (subst build_zone.simps) simp
  then show ?thesis ..
qed

lemma build_zone_before_custom:
  assumes "build_zone domain all_domains ar env ext z = Inr out"
  shows "\<exists>R'. zone_tail domain ar env ext z R' = Inr out \<and> (\<forall>r\<in>set R'. builtin env r) \<and>
     (\<forall>s\<in>set all_domains. endswith s (''.'' @ domain) \<longrightarrow>
        (\<exists>sub. build_zone s [] [] env ext False = Inr sub \<and>
           requalify (subdomain_qname domain s) ` set sub \<subseteq> set R'))"
proof -
  let ?subs = "map (\<lambda>subdomain. (subdomain, build_zone subdomain [] [] env ext False))
          (filter (\<lambda>d. endswith d (''.'' @ domain)) all_domains)"
  from build_zone_parts [OF assms] obtain hs R' where
    hs: "zone_head domain env ext z = Inr hs"
    and sz: "add_subzones domain hs ?subs = Inr R'"
    and t: "zone_tail domain ar env ext z R' = Inr out"
    by blast
  note setR = add_subzones_set [OF sz]
  have inr: "\<exists>sub. build_zone s [] [] env ext False = Inr sub"
    if "s \<in> set all_domains" "endswith s (''.'' @ domain)" for s
  proof -
    from that have "(s, build_zone s [] [] env ext False) \<in> set ?subs" by auto
    from add_subzones_Inr [OF sz this] show ?thesis by simp
  qed
  have b: "\<forall>r\<in>set R'. builtin env r"
  proof
    fix r assume "r \<in> set R'"
    with setR consider "r \<in> set hs"
      | s r' where "s \<in> set all_domains" "endswith s (''.'' @ domain)"
          "r' \<in> set (projr (build_zone s [] [] env ext False))"
          "r = requalify (subdomain_qname domain s) r'"
      by auto
    then show "builtin env r"
    proof cases
      case 1
      then show ?thesis by (rule zone_head_builtin [OF hs])
    next
      case 2
      from inr [OF 2(1,2)] obtain sub where sub: "build_zone s [] [] env ext False = Inr sub" ..
      with 2(3) have "r' \<in> set sub" by simp
      from build_zone_leaf_builtin [OF sub this] show ?thesis
        unfolding 2(4) builtin_requalify .
    qed
  qed
  have c: "\<forall>s\<in>set all_domains. endswith s (''.'' @ domain) \<longrightarrow>
        (\<exists>sub. build_zone s [] [] env ext False = Inr sub \<and>
           requalify (subdomain_qname domain s) ` set sub \<subseteq> set R')"
  proof (intro ballI impI)
    fix s assume s: "s \<in> set all_domains" "endswith s (''.'' @ domain)"
    from inr [OF s] obtain sub where sub: "build_zone s [] [] env ext False = Inr sub" ..
    from s have "(s, build_zone s [] [] env ext False) \<in> set ?subs" by auto
    then have "requalify (subdomain_qname domain s) ` set (projr (build_zone s [] [] env ext False))
        \<subseteq> set R'"
      unfolding setR by force
    with sub show "\<exists>sub. build_zone s [] [] env ext False = Inr sub \<and>
           requalify (subdomain_qname domain s) ` set sub \<subseteq> set R'"
      by simp
  qed
  from t b c show ?thesis by blast
qed

lemma has_rec_requalify:
  assumes "has_rec sub None t None" and "requalify q ` set sub \<subseteq> set R"
  shows "has_rec R (Some q) t None"
proof -
  from assms(1) obtain r where r: "r \<in> set sub" "fst r = None" "fst (snd r) = t"
    by (auto simp: has_rec_iff)
  from r(1) assms(2) have "requalify q r \<in> set R" by auto
  moreover from r(2,3) have "fst (requalify q r) = Some q" "fst (snd (requalify q r)) = t"
    by (simp_all add: requalify_def)
  ultimately show ?thesis by (auto simp: has_rec_iff)
qed

lemma env1_sel:
  "PRIMARY_HOSTNAME env1 = ''box.example.com''" "PUBLIC_IP env1 = ''203.0.113.1''"
  "PUBLIC_IPV6 env1 = Some ''2001:db8::2''"
  by (simp_all add: env1_def)

lemma sample_subdomain:
  "endswith ''mail.example.com'' (''.'' @ ''example.com'')"
  "subdomain_qname ''example.com'' ''mail.example.com'' = ''mail''"
  by (simp_all add: endswith_def suffix_to_prefix subdomain_qname_def)

text \<open>
  C10, as stated, fails for a custom AAAA record when the box has no IPv6 address: the
  call for the subdomain then emits no AAAA record, so the custom AAAA record for the
  subdomain is not skipped and is in the zone, marked as set by the user.
\<close>

theorem build_zone_subdomain_defaults_shadow_counterexample:
  "PUBLIC_IPV6 env0 = None \<and>
   (\<exists>out. build_zone ''example.com'' [''mail.example.com'', ''example.com'']
       [(''mail.example.com'', Mapping [(''AAAA'', ''2001:db8::1'')])] env0 ext0 True = Inr out \<and>
     (Some ''mail'', ''AAAA'', ''2001:db8::1'', Some ''(Set by user.)'') \<in> set out)"
proof -
  let ?ar = "[(''mail.example.com'', Mapping [(''AAAA'', ''2001:db8::1'')])]"
  have c: "get_custom_records ''example.com'' ?ar env0 = Inr [(Some ''mail'', ''AAAA'', ''2001:db8::1'')]"
    by (simp add: entry_values_def yield_value_def endswith_def suffix_to_prefix Let_def)
  from build_zone_returns [OF _ ext0_sel(5) c, of "[''mail.example.com'', ''example.com'']" True]
  obtain out where out: "build_zone ''example.com'' [''mail.example.com'', ''example.com''] ?ar
       env0 ext0 True = Inr out"
    by (auto simp: env0_sel)
  from build_zone_before_custom [OF out] obtain R' where
    t: "zone_tail ''example.com'' ?ar env0 ext0 True R' = Inr out"
    and b: "\<forall>r\<in>set R'. builtin env0 r"
    by blast
  have "\<not> has_rec R' (Some ''mail'') ''AAAA'' None"
    using b by (auto simp: has_rec_iff builtin_def env0_sel)
  then have "add_custom_records R' [(Some ''mail'', ''AAAA'', ''2001:db8::1'')] =
      R' @ [(Some ''mail'', ''AAAA'', ''2001:db8::1'', Some ''(Set by user.)'')]"
    by simp
  with zone_tail_custom_mono [OF t] c
  have "(Some ''mail'', ''AAAA'', ''2001:db8::1'', Some ''(Set by user.)'') \<in> set out"
    by auto
  with out show ?thesis by (auto simp: env0_sel)
qed

text \<open>
  C10, amended. Let \<open>subdomain\<close> be one of \<open>all_domains\<close> and a strict subdomain of
  \<open>domain\<close>, let the address of the box not be blank, and let \<^verbatim>\<open>build_zone\<close> return
  \<open>out\<close> for \<open>domain\<close>. Then the call of \<^verbatim>\<open>build_zone\<close> for the subdomain, with no domains
  and no custom records, returns a list that has an A record for the subdomain itself, and
  an AAAA record too when the IPv6 address of the box is set and not blank; its records,
  under their names in the parent zone, are in \<open>out\<close>; and every A record of \<open>out\<close> at the
  name of the subdomain carries the address of the box and is not marked as set by the
  user, and likewise every AAAA record at that name when the IPv6 address is set and not
  blank. So a custom A record for the subdomain is always skipped, and a custom AAAA
  record is skipped when IPv6 is configured.
\<close>

theorem build_zone_subdomain_defaults_shadow:
  assumes "subdomain \<in> set all_domains" and "endswith subdomain (''.'' @ domain)"
    and "strip (PUBLIC_IP env) \<noteq> []"
    and "build_zone domain all_domains additional_records env ext is_zone = Inr out"
  shows "\<exists>subzone. build_zone subdomain [] [] env ext False = Inr subzone \<and>
     has_rec subzone None ''A'' None \<and>
     ((\<exists>v6. PUBLIC_IPV6 env = Some v6 \<and> strip v6 \<noteq> []) \<longrightarrow> has_rec subzone None ''AAAA'' None) \<and>
     requalify (subdomain_qname domain subdomain) ` set subzone \<subseteq> set out \<and>
     (\<forall>r\<in>set out. fst r = Some (subdomain_qname domain subdomain) \<and> fst (snd r) = ''A'' \<longrightarrow>
        fst (snd (snd r)) = PUBLIC_IP env \<and> snd (snd (snd r)) \<noteq> Some ''(Set by user.)'') \<and>
     ((\<exists>v6. PUBLIC_IPV6 env = Some v6 \<and> strip v6 \<noteq> []) \<longrightarrow>
        (\<forall>r\<in>set out. fst r = Some (subdomain_qname domain subdomain) \<and> fst (snd r) = ''AAAA'' \<longrightarrow>
           PUBLIC_IPV6 env = Some (fst (snd (snd r))) \<and>
           snd (snd (snd r)) \<noteq> Some ''(Set by user.)''))"
proof -
  let ?q = "subdomain_qname domain subdomain"
  from build_zone_before_custom [OF assms(4)] assms(1,2) obtain R' subzone where
    t: "zone_tail domain additional_records env ext is_zone R' = Inr out"
    and b: "\<forall>r\<in>set R'. builtin env r"
    and sub: "build_zone subdomain [] [] env ext False = Inr subzone"
    and inc: "requalify ?q ` set subzone \<subseteq> set R'"
    by blast
  have a: "has_rec subzone None ''A'' None"
    by (rule build_zone_leaf_has_A [OF sub assms(3)])
  have a6: "has_rec subzone None ''AAAA'' None" if "PUBLIC_IPV6 env = Some v6" "strip v6 \<noteq> []" for v6
    by (rule build_zone_leaf_has_AAAA [OF sub that])
  have shadow: "builtin env r"
    if "has_rec subzone None t None" "t \<noteq> ''TXT''" "r \<in> set out" "fst r = Some ?q" "fst (snd r) = t"
    for r t
  proof -
    from has_rec_requalify [OF that(1) inc] that(4,5)
    have "has_rec R' (fst r) (fst (snd r)) None" by simp
    from zone_tail_shadow [OF t this] that(2,3,5) have "r \<in> set R'" by simp
    with b show ?thesis by blast
  qed
  have 1: "\<forall>r\<in>set out. fst r = Some ?q \<and> fst (snd r) = ''A'' \<longrightarrow>
        fst (snd (snd r)) = PUBLIC_IP env \<and> snd (snd (snd r)) \<noteq> Some ''(Set by user.)''"
  proof (intro ballI impI)
    fix r assume "r \<in> set out" and "fst r = Some ?q \<and> fst (snd r) = ''A''"
    with shadow [OF a, of r] have "builtin env r" by simp
    with \<open>fst r = Some ?q \<and> fst (snd r) = ''A''\<close>
    show "fst (snd (snd r)) = PUBLIC_IP env \<and> snd (snd (snd r)) \<noteq> Some ''(Set by user.)''"
      by (simp add: builtin_def)
  qed
  have 2: "(\<exists>v6. PUBLIC_IPV6 env = Some v6 \<and> strip v6 \<noteq> []) \<longrightarrow>
        (\<forall>r\<in>set out. fst r = Some ?q \<and> fst (snd r) = ''AAAA'' \<longrightarrow>
           PUBLIC_IPV6 env = Some (fst (snd (snd r))) \<and>
           snd (snd (snd r)) \<noteq> Some ''(Set by user.)'')"
  proof (intro ballI impI)
    fix r assume v: "\<exists>v6. PUBLIC_IPV6 env = Some v6 \<and> strip v6 \<noteq> []"
      and r: "r \<in> set out" and q: "fst r = Some ?q \<and> fst (snd r) = ''AAAA''"
    from v a6 have "has_rec subzone None ''AAAA'' None" by blast
    with shadow [of "''AAAA''" r] r q have "builtin env r" by simp
    with q show "PUBLIC_IPV6 env = Some (fst (snd (snd r))) \<and>
        snd (snd (snd r)) \<noteq> Some ''(Set by user.)''"
      by (simp add: builtin_def)
  qed
  have 3: "requalify ?q ` set subzone \<subseteq> set out"
    using inc zone_tail_mono [OF t] by blast
  have 4: "(\<exists>v6. PUBLIC_IPV6 env = Some v6 \<and> strip v6 \<noteq> []) \<longrightarrow> has_rec subzone None ''AAAA'' None"
    using a6 by blast
  from sub a 4 3 1 2 show ?thesis by blast
qed

theorem build_zone_subdomain_defaults_shadow_witness:
  "\<exists>out. build_zone ''example.com'' [''mail.example.com'', ''example.com'']
       [(''mail.example.com'', Mapping [(''A'', ''198.51.100.7''), (''AAAA'', ''2001:db8::1'')])]
       env1 ext0 True = Inr out \<and>
     has_rec out (Some ''mail'') ''A'' None \<and> has_rec out (Some ''mail'') ''AAAA'' None \<and>
     (Some ''mail'', ''A'', ''198.51.100.7'', Some ''(Set by user.)'') \<notin> set out \<and>
     (Some ''mail'', ''AAAA'', ''2001:db8::1'', Some ''(Set by user.)'') \<notin> set out"
proof -
  let ?ar = "[(''mail.example.com'', Mapping [(''A'', ''198.51.100.7''), (''AAAA'', ''2001:db8::1'')])]"
  have "\<exists>custom. get_custom_records ''example.com'' ?ar env1 = Inr custom"
    by (simp add: entry_values_def endswith_def suffix_to_prefix Let_def)
  then obtain custom where "get_custom_records ''example.com'' ?ar env1 = Inr custom" ..
  from build_zone_returns [OF _ ext0_sel(5) this, of "[''mail.example.com'', ''example.com'']" True]
  obtain out where out: "build_zone ''example.com'' [''mail.example.com'', ''example.com''] ?ar
       env1 ext0 True = Inr out"
    by (auto simp: env1_sel)
  have m: "''mail.example.com'' \<in> set [''mail.example.com'', ''example.com'']" by simp
  have ip: "strip (PUBLIC_IP env1) \<noteq> []" by (simp add: env1_sel strip_def isspace_def)
  have v6: "\<exists>v6. PUBLIC_IPV6 env1 = Some v6 \<and> strip v6 \<noteq> []"
    by (simp add: env1_sel strip_def isspace_def)
  from build_zone_subdomain_defaults_shadow [OF m sample_subdomain(1) ip out] v6
  obtain subzone where
    a: "has_rec subzone None ''A'' None" and a6: "has_rec subzone None ''AAAA'' None"
    and inc: "requalify ''mail'' ` set subzone \<subseteq> set out"
    and 1: "\<forall>r\<in>set out. fst r = Some ''mail'' \<and> fst (snd r) = ''A'' \<longrightarrow>
        fst (snd (snd r)) = PUBLIC_IP env1 \<and> snd (snd (snd r)) \<noteq> Some ''(Set by user.)''"
    and 2: "\<forall>r\<in>set out. fst r = Some ''mail'' \<and> fst (snd r) = ''AAAA'' \<longrightarrow>
           PUBLIC_IPV6 env1 = Some (fst (snd (snd r))) \<and>
           snd (snd (snd r)) \<noteq> Some ''(Set by user.)''"
    unfolding sample_subdomain(2) by blast
  from has_rec_requalify [OF a inc] have 3: "has_rec out (Some ''mail'') ''A'' None" .
  from has_rec_requalify [OF a6 inc] have 4: "has_rec out (Some ''mail'') ''AAAA'' None" .
  from 1 have 5: "(Some ''mail'', ''A'', ''198.51.100.7'', Some ''(Set by user.)'') \<notin> set out"
    by auto
  from 2 have 6: "(Some ''mail'', ''AAAA'', ''2001:db8::1'', Some ''(Set by user.)'') \<notin> set out"
    by auto
  from out 3 4 5 6 show ?thesis by blast
qed

end
